theory Spec2Isabelle
  imports Complex_Main "HOL-Library.Word" "HOL-Library.Log_Nat"
begin

section \<open>JavaScript strings\<close>

text \<open>
  A JavaScript string is a sequence of 16-bit code units, and \<open>length\<close> counts code
  units. Every character class the scan pipeline tests is a range of ASCII code units.
  \<open>js\<close> embeds a literal; each character of the literal is one code unit.
\<close>

type_synonym jschar = "16 word"
type_synonym jsstring = "jschar list"

definition js :: "string \<Rightarrow> jsstring" where
  "js s = map (\<lambda>c. of_nat (of_char c)) s"

text \<open>Decimal rendering of a non-negative integer, as \<open>String(n)\<close> gives it.\<close>

definition digit :: "nat \<Rightarrow> jschar" where
  "digit d = of_nat (48 + d)"

fun decimal :: "nat \<Rightarrow> jsstring" where
  "decimal n = (if n < 10 then [digit n] else decimal (n div 10) @ [digit (n mod 10)])"

declare decimal.simps [simp del]

text \<open>\<open>s.padStart(n, '0')\<close>.\<close>

definition padStart0 :: "nat \<Rightarrow> jsstring \<Rightarrow> jsstring" where
  "padStart0 n s = replicate (n - length s) 0x30 @ s"

text \<open>
  \<open>String.prototype.trim\<close>: white space and line terminators are removed at both ends.
\<close>

definition isWhiteSpace :: "jschar \<Rightarrow> bool" where
  "isWhiteSpace c \<longleftrightarrow>
     (0x09 \<le> c \<and> c \<le> 0x0D) \<or> c = 0x20 \<or> c = 0xA0 \<or> c = 0x1680
     \<or> (0x2000 \<le> c \<and> c \<le> 0x200A) \<or> c = 0x2028 \<or> c = 0x2029 \<or> c = 0x202F
     \<or> c = 0x205F \<or> c = 0x3000 \<or> c = 0xFEFF"

definition trim :: "jsstring \<Rightarrow> jsstring" where
  "trim s = rev (dropWhile isWhiteSpace (rev (dropWhile isWhiteSpace s)))"

text \<open>
  \<open>[...new Set(xs)]\<close>: a Set keeps the first occurrence of each value, in insertion
  order.
\<close>

definition setInsert :: "'a list \<Rightarrow> 'a \<Rightarrow> 'a list" where
  "setInsert acc x = (if x \<in> set acc then acc else acc @ [x])"

definition newSet :: "'a list \<Rightarrow> 'a list" where
  "newSet xs = foldl setInsert [] xs"

section \<open>types.ts\<close>

datatype EntryMethod = Camera | Upload | Manual | Video

record GeolocationCoordinates =
  latitude :: real
  longitude :: real

text \<open>Of \<open>User\<close>, the capture components read \<open>id\<close> and \<open>email\<close>.\<close>

record User =
  uid :: jsstring
  email :: jsstring

text \<open>
  \<open>ScanLogData\<close> is \<open>Omit<ScanLog, 'id'>\<close>; \<open>ScanLog\<close> extends it with the
  generated \<open>id\<close> (field \<open>logId\<close>). A \<open>Date\<close> is its time value in milliseconds.
\<close>

record ScanLogData =
  sessionId :: jsstring
  vin :: jsstring
  parkingArea :: jsstring
  timestamp :: nat
  location :: GeolocationCoordinates
  imageUrl :: "jsstring option"
  entryMethod :: EntryMethod
  userId :: jsstring
  userEmail :: jsstring

record ScanLog = ScanLogData +
  logId :: jsstring

section \<open>services/firebaseService.ts\<close>

text \<open>
  The module state: the array \<open>mockFirestore\<close> and the copy kept in
  \<open>localStorage\<close> under \<open>LOGS_KEY\<close> (\<open>None\<close> while nothing was saved).
\<close>

record Firestore =
  mockFirestore :: "ScanLog list"
  localStorage :: "ScanLog list option"

text \<open>
  \<open>saveToLocalStorage\<close> swallows a failing \<open>setItem\<close>; \<open>ok\<close> tells whether the
  write went through.
\<close>

definition saveToLocalStorage :: "bool \<Rightarrow> Firestore \<Rightarrow> Firestore" where
  "saveToLocalStorage ok db =
     (if ok then db\<lparr>localStorage := Some (mockFirestore db)\<rparr> else db)"

text \<open>
  What the platform supplies while one record is built and stored: the caller's
  \<open>new Date()\<close>, and inside \<open>addScanLog\<close> the value of \<open>Date.now()\<close>, the digits of
  \<open>Math.random().toString(36).substr(2, 9)\<close>, and whether \<open>localStorage\<close> accepts
  the write.
\<close>

record Tick =
  newDate :: nat
  dateNow :: nat
  random36 :: jsstring
  storageOk :: bool

definition newLogId :: "Tick \<Rightarrow> jsstring" where
  "newLogId t = js ''log_'' @ decimal (dateNow t) @ js ''_'' @ random36 t"

definition addScanLog :: "Tick \<Rightarrow> ScanLogData \<Rightarrow> Firestore \<Rightarrow> ScanLog \<times> Firestore" where
  "addScanLog t logData db =
     (let newLog = ScanLogData.extend logData (ScanLog.fields (newLogId t));
          db1 = db\<lparr>mockFirestore := mockFirestore db @ [newLog]\<rparr>
      in (newLog, saveToLocalStorage (storageOk t) db1))"

text \<open>
  \<open>uploadVinImage\<close> returns the temporary URL that \<open>URL.createObjectURL\<close> made for the
  blob; the URL is supplied by the platform.
\<close>

type_synonym Blob = "8 word list"

definition uploadVinImage :: "jsstring \<Rightarrow> jsstring \<Rightarrow> Blob \<Rightarrow> jsstring" where
  "uploadVinImage mockUrl v imageBlob = mockUrl"

section \<open>services/geminiService.ts\<close>

text \<open>The class \<open>[A-HJ-NPR-Z0-9]\<close> of the pattern \<open>/[^A-HJ-NPR-Z0-9]/g\<close>.\<close>

definition vinChar :: "jschar \<Rightarrow> bool" where
  "vinChar c \<longleftrightarrow>
     (0x41 \<le> c \<and> c \<le> 0x48) \<or> (0x4A \<le> c \<and> c \<le> 0x4E) \<or> c = 0x50
     \<or> (0x52 \<le> c \<and> c \<le> 0x5A) \<or> (0x30 \<le> c \<and> c \<le> 0x39)"

text \<open>
  The messages the capture components show, one constructor for each.
  \<^item> \<open>CouldNotRecognizeVin\<close>: "Could not recognize a valid VIN. Please try again with a
    clearer image." (thrown by \<open>extractVinFromImage\<close>);
  \<^item> \<open>InvalidVinLength\<close>: "A valid VIN must be exactly 17 characters long.";
  \<^item> \<open>DuplicateVin v\<close>: "Duplicate VIN: The VIN "v" has already been ...";
  \<^item> \<open>CouldNotGetLocation m\<close>: "Could not get location: " followed by the platform's
    message \<open>m\<close>;
  \<^item> \<open>NoImageProvided\<close>: "Please provide an image.";
  \<^item> \<open>CouldNotReadFile\<close>: the rejection of \<open>fileToBase64\<close>;
  \<^item> \<open>NothingToConfirm\<close>: the handler returned at once, with no message.
\<close>

datatype error =
    CouldNotRecognizeVin
  | InvalidVinLength
  | DuplicateVin jsstring
  | CouldNotGetLocation jsstring
  | NoImageProvided
  | CouldNotReadFile
  | NothingToConfirm

text \<open>
  \<open>extractVinFromImage\<close>, after the remote call: \<open>response\<close> is \<open>response.text\<close>, or
  \<open>None\<close> when the call throws or returns no text. The error thrown for a wrong length
  is caught by the function's own \<open>catch\<close>, which throws the generic message instead.
\<close>

definition extractVinFromImage :: "jsstring option \<Rightarrow> error + jsstring" where
  "extractVinFromImage response =
     (case response of
        None \<Rightarrow> Inl CouldNotRecognizeVin
      | Some text \<Rightarrow>
          (let v = filter vinChar (trim text)
           in if length v \<noteq> 17 then Inl CouldNotRecognizeVin else Inr v))"

section \<open>AgentApp.tsx\<close>

datatype Screen = Welcome | Scanning | Summary

record AgentApp =
  screen :: Screen
  selectedArea :: jsstring
  currentSessionId :: jsstring
  sessionLogs :: "ScanLog list"

text \<open>The fields of \<open>new Date()\<close> that \<open>generateSessionId\<close> reads (local time).\<close>

record LocalDate =
  getDate :: nat
  getMonth :: nat
  getFullYear :: nat
  getHours :: nat
  getMinutes :: nat
  getSeconds :: nat
  getMilliseconds :: nat

definition alnum :: "jschar \<Rightarrow> bool" where
  "alnum c \<longleftrightarrow>
     (0x61 \<le> c \<and> c \<le> 0x7A) \<or> (0x41 \<le> c \<and> c \<le> 0x5A) \<or> (0x30 \<le> c \<and> c \<le> 0x39)"

text \<open>\<open>toUpperCase\<close> on ASCII text: only \<open>a\<close> to \<open>z\<close> change.\<close>

definition asciiUpper :: "jsstring \<Rightarrow> jsstring" where
  "asciiUpper s = map (\<lambda>c. if 0x61 \<le> c \<and> c \<le> 0x7A then c - 0x20 else c) s"

definition generateSessionId :: "LocalDate \<Rightarrow> jsstring \<Rightarrow> jsstring" where
  "generateSessionId now area =
     (let dd = padStart0 2 (decimal (getDate now));
          mm = padStart0 2 (decimal (getMonth now + 1));
          yyyy = decimal (getFullYear now);
          hh = padStart0 2 (decimal (getHours now));
          min' = padStart0 2 (decimal (getMinutes now));
          ss = padStart0 2 (decimal (getSeconds now));
          ms = take 2 (padStart0 3 (decimal (getMilliseconds now)));
          sanitizedArea = take 6 (asciiUpper (filter alnum area))
      in sanitizedArea @ dd @ mm @ yyyy @ hh @ min' @ ss @ ms)"

definition handleStart :: "LocalDate \<Rightarrow> jsstring \<Rightarrow> AgentApp \<Rightarrow> AgentApp" where
  "handleStart now area a =
     a\<lparr>selectedArea := area, currentSessionId := generateSessionId now area,
       sessionLogs := [], screen := Scanning\<rparr>"

definition handleScan :: "ScanLog \<Rightarrow> AgentApp \<Rightarrow> AgentApp" where
  "handleScan log' a = a\<lparr>sessionLogs := log' # sessionLogs a\<rparr>"

text \<open>
  \<open>handleFinish\<close> also selects the scanner tab; the selected tab is not part of the
  state kept here, since no handler reads it.
\<close>

definition handleFinish :: "AgentApp \<Rightarrow> AgentApp" where
  "handleFinish a = a\<lparr>screen := Summary\<rparr>"

definition handleBackToScan :: "AgentApp \<Rightarrow> AgentApp" where
  "handleBackToScan a = a\<lparr>screen := Scanning\<rparr>"

definition handleStartNewCheck :: "AgentApp \<Rightarrow> AgentApp" where
  "handleStartNewCheck a =
     a\<lparr>sessionLogs := [], selectedArea := [], currentSessionId := [], screen := Welcome\<rparr>"

text \<open>
  \<open>commonProps\<close>: what a capture component sees of the application state at the render
  in which its handler was created. A handler keeps these values for its whole run.
\<close>

record Props =
  isSessionActive :: bool
  propParkingArea :: jsstring
  propSessionId :: jsstring
  propSessionLogs :: "ScanLog list"
  currentUser :: User

definition commonProps :: "User \<Rightarrow> AgentApp \<Rightarrow> Props" where
  "commonProps u a =
     \<lparr>isSessionActive = (screen a = Scanning), propParkingArea = selectedArea a,
      propSessionId = currentSessionId a, propSessionLogs = sessionLogs a,
      currentUser = u\<rparr>"

text \<open>The audit log and the application state together.\<close>

record World =
  firestore :: Firestore
  app :: AgentApp

text \<open>
  \<open>navigator.geolocation.getCurrentPosition\<close> calls back with a position, or with an
  error whose message is the \<open>Inl\<close> value.
\<close>

type_synonym Position = "jsstring + GeolocationCoordinates"

text \<open>
  The tail shared by the capture handlers: \<open>addScanLog(newLogData)\<close>, then
  \<open>onScan(newLog)\<close>, which is \<open>handleScan\<close> applied to the state of that moment.
\<close>

definition saveAndScan :: "Tick \<Rightarrow> ScanLogData \<Rightarrow> World \<Rightarrow> ScanLog \<times> World" where
  "saveAndScan t newLogData w =
     (let (newLog, db) = addScanLog t newLogData (firestore w)
      in (newLog, w\<lparr>firestore := db, app := handleScan newLog (app w)\<rparr>))"

section \<open>components/ManualVinInput.tsx\<close>

text \<open>
  \<open>handleVinChange\<close>; \<open>toUpperCase\<close> is the platform's Unicode upper-casing of the
  typed text.
\<close>

definition handleVinChange :: "(jsstring \<Rightarrow> jsstring) \<Rightarrow> jsstring \<Rightarrow> jsstring" where
  "handleVinChange toUpperCase value = take 17 (filter vinChar (toUpperCase value))"

definition ManualVinInput_handleSubmit ::
    "Position \<Rightarrow> Tick \<Rightarrow> Props \<Rightarrow> jsstring \<Rightarrow> World \<Rightarrow> (error + ScanLog) \<times> World" where
  "ManualVinInput_handleSubmit position t props v w =
     (if length v \<noteq> 17 then (Inl InvalidVinLength, w)
      else if list_ex (\<lambda>log'. vin log' = v) (propSessionLogs props)
        then (Inl (DuplicateVin v), w)
      else case position of
          Inl message \<Rightarrow> (Inl (CouldNotGetLocation message), w)
        | Inr loc \<Rightarrow>
            (let newLogData =
                   \<lparr>sessionId = propSessionId props, vin = v,
                    parkingArea = propParkingArea props, timestamp = newDate t,
                    location = loc, imageUrl = None, entryMethod = Manual,
                    userId = uid (currentUser props), userEmail = email (currentUser props)\<rparr>;
                 (newLog, w1) = saveAndScan t newLogData w
             in (Inr newLog, w1)))"

section \<open>components/VinScanner.tsx\<close>

text \<open>
  \<open>confirmVin\<close> in two parts. The first runs at the click, on the state of the render:
  the guard and the duplicate check. The second runs after the handler has waited for
  the position, the upload and the store.
\<close>

definition confirmVin_check ::
    "Props \<Rightarrow> jsstring option \<Rightarrow> Blob option \<Rightarrow> error + jsstring \<times> Blob" where
  "confirmVin_check props vinState capturedImage =
     (case (vinState, capturedImage) of
        (Some v, Some blob) \<Rightarrow>
          (if v = [] then Inl NothingToConfirm
           else if list_ex (\<lambda>log'. vin log' = v) (propSessionLogs props)
             then Inl (DuplicateVin v)
           else Inr (v, blob))
      | _ \<Rightarrow> Inl NothingToConfirm)"

definition confirmVin_save ::
    "Position \<Rightarrow> jsstring \<Rightarrow> Tick \<Rightarrow> Props \<Rightarrow> jsstring \<times> Blob \<Rightarrow> World
       \<Rightarrow> (error + ScanLog) \<times> World" where
  "confirmVin_save position mockUrl t props vi w =
     (case position of
        Inl message \<Rightarrow> (Inl (CouldNotGetLocation message), w)
      | Inr loc \<Rightarrow>
          (let newLogData =
                 \<lparr>sessionId = propSessionId props, vin = fst vi,
                  parkingArea = propParkingArea props, timestamp = newDate t,
                  location = loc, imageUrl = Some (uploadVinImage mockUrl (fst vi) (snd vi)),
                  entryMethod = Camera,
                  userId = uid (currentUser props), userEmail = email (currentUser props)\<rparr>;
               (newLog, w1) = saveAndScan t newLogData w
           in (Inr newLog, w1)))"

definition confirmVin ::
    "Position \<Rightarrow> jsstring \<Rightarrow> Tick \<Rightarrow> Props \<Rightarrow> jsstring option \<Rightarrow> Blob option \<Rightarrow> World
       \<Rightarrow> (error + ScanLog) \<times> World" where
  "confirmVin position mockUrl t props vinState capturedImage w =
     (case confirmVin_check props vinState capturedImage of
        Inl e \<Rightarrow> (Inl e, w)
      | Inr vi \<Rightarrow> confirmVin_save position mockUrl t props vi w)"

section \<open>components/ImageAnalyzer.tsx\<close>

text \<open>
  \<open>handleSubmit\<close>. \<open>fileToBase64\<close> (of \<open>utils/fileUtils\<close>, which is not among the
  sources) is taken as given: \<open>base64Image\<close> is its result, \<open>None\<close> when it rejects.
  \<open>response\<close> is what the recognition call answers for the uploaded image (see
  \<open>extractVinFromImage\<close>).
\<close>

definition ImageAnalyzer_handleSubmit ::
    "Position \<Rightarrow> jsstring option \<Rightarrow> jsstring option \<Rightarrow> jsstring \<Rightarrow> Tick \<Rightarrow> Props
       \<Rightarrow> Blob option \<Rightarrow> World \<Rightarrow> (error + ScanLog) \<times> World" where
  "ImageAnalyzer_handleSubmit position base64Image response mockUrl t props imageFile w =
     (case imageFile of
        None \<Rightarrow> (Inl NoImageProvided, w)
      | Some file \<Rightarrow>
          (case position of
             Inl message \<Rightarrow> (Inl (CouldNotGetLocation message), w)
           | Inr loc \<Rightarrow>
               (case base64Image of
                  None \<Rightarrow> (Inl CouldNotReadFile, w)
                | Some base64 \<Rightarrow>
                    (case extractVinFromImage response of
                       Inl e \<Rightarrow> (Inl e, w)
                     | Inr v \<Rightarrow>
                         (if list_ex (\<lambda>log'. vin log' = v) (propSessionLogs props)
                            then (Inl (DuplicateVin v), w)
                          else
                            (let newLogData =
                                   \<lparr>sessionId = propSessionId props, vin = v,
                                    parkingArea = propParkingArea props,
                                    timestamp = newDate t, location = loc,
                                    imageUrl = Some (uploadVinImage mockUrl v file),
                                    entryMethod = Upload,
                                    userId = uid (currentUser props),
                                    userEmail = email (currentUser props)\<rparr>;
                                 (newLog, w1) = saveAndScan t newLogData w
                             in (Inr newLog, w1)))))))"

section \<open>JSON.parse\<close>

text \<open>
  The platform's \<open>JSON.parse\<close>, after the JSON grammar (ECMA-404): a value between
  optional white space, and nothing else. A number keeps its text, since the caller only
  asks whether an element is a string. An object keeps its members as written.
  \<open>None\<close> is the \<open>SyntaxError\<close>.
\<close>

datatype json =
    JNull
  | JBool bool
  | JNumber jsstring
  | JString jsstring
  | JArray "json list"
  | JObject "(jsstring \<times> json) list"

datatype token =
    TLBracket | TRBracket | TLBrace | TRBrace | TComma | TColon
  | TString jsstring | TNumber jsstring | TTrue | TFalse | TNull

text \<open>
  The states of the number grammar
  \<open>-? (0 | [1-9][0-9]*) (. [0-9]+)? ([eE] [+-]? [0-9]+)?\<close>.
\<close>

datatype numstate =
    AfterMinus | AfterZero | IntDigits | AfterPoint | FracDigits
  | AfterE | AfterESign | ExpDigits

definition isDigit :: "jschar \<Rightarrow> bool" where
  "isDigit c \<longleftrightarrow> 0x30 \<le> c \<and> c \<le> 0x39"

definition isE :: "jschar \<Rightarrow> bool" where
  "isE c \<longleftrightarrow> c = 0x65 \<or> c = 0x45"

fun num_step :: "numstate \<Rightarrow> jschar \<Rightarrow> numstate option" where
  "num_step AfterMinus c =
     (if c = 0x30 then Some AfterZero else if isDigit c then Some IntDigits else None)"
| "num_step AfterZero c =
     (if c = 0x2E then Some AfterPoint else if isE c then Some AfterE else None)"
| "num_step IntDigits c =
     (if isDigit c then Some IntDigits else if c = 0x2E then Some AfterPoint
      else if isE c then Some AfterE else None)"
| "num_step AfterPoint c = (if isDigit c then Some FracDigits else None)"
| "num_step FracDigits c =
     (if isDigit c then Some FracDigits else if isE c then Some AfterE else None)"
| "num_step AfterE c =
     (if c = 0x2B \<or> c = 0x2D then Some AfterESign
      else if isDigit c then Some ExpDigits else None)"
| "num_step AfterESign c = (if isDigit c then Some ExpDigits else None)"
| "num_step ExpDigits c = (if isDigit c then Some ExpDigits else None)"

fun num_complete :: "numstate \<Rightarrow> bool" where
  "num_complete AfterZero = True"
| "num_complete IntDigits = True"
| "num_complete FracDigits = True"
| "num_complete ExpDigits = True"
| "num_complete _ = False"

text \<open>
  The scanner reads one code unit at a time. Its modes: between tokens; inside a string
  (with the content read so far); after a backslash; inside \<open>\uXXXX\<close> (with the hex
  digits read so far); inside a number; inside \<open>true\<close>, \<open>false\<close> or \<open>null\<close> (with the
  code units still expected).
\<close>

datatype lexmode =
    Idle
  | InString jsstring
  | InEscape jsstring
  | InUnicode jsstring "jschar list"
  | InNumber numstate jsstring
  | InLiteral jsstring token

definition jsonWhiteSpace :: "jschar \<Rightarrow> bool" where
  "jsonWhiteSpace c \<longleftrightarrow> c = 0x20 \<or> c = 0x09 \<or> c = 0x0A \<or> c = 0x0D"

definition hexValue :: "jschar \<Rightarrow> jschar option" where
  "hexValue c =
     (if 0x30 \<le> c \<and> c \<le> 0x39 then Some (c - 0x30)
      else if 0x61 \<le> c \<and> c \<le> 0x66 then Some (c - 0x61 + 10)
      else if 0x41 \<le> c \<and> c \<le> 0x46 then Some (c - 0x41 + 10)
      else None)"

definition hexUnit :: "jschar list \<Rightarrow> jschar" where
  "hexUnit ds = foldl (\<lambda>n d. 16 * n + d) 0 ds"

definition escapeUnit :: "jschar \<Rightarrow> jschar option" where
  "escapeUnit c =
     (if c = 0x22 \<or> c = 0x5C \<or> c = 0x2F then Some c
      else if c = 0x62 then Some 0x08
      else if c = 0x66 then Some 0x0C
      else if c = 0x6E then Some 0x0A
      else if c = 0x72 then Some 0x0D
      else if c = 0x74 then Some 0x09
      else None)"

definition idle_step :: "jschar \<Rightarrow> (token list \<times> lexmode) option" where
  "idle_step c =
     (if jsonWhiteSpace c then Some ([], Idle)
      else if c = 0x5B then Some ([TLBracket], Idle)
      else if c = 0x5D then Some ([TRBracket], Idle)
      else if c = 0x7B then Some ([TLBrace], Idle)
      else if c = 0x7D then Some ([TRBrace], Idle)
      else if c = 0x2C then Some ([TComma], Idle)
      else if c = 0x3A then Some ([TColon], Idle)
      else if c = 0x22 then Some ([], InString [])
      else if c = 0x2D then Some ([], InNumber AfterMinus [c])
      else if c = 0x30 then Some ([], InNumber AfterZero [c])
      else if isDigit c then Some ([], InNumber IntDigits [c])
      else if c = 0x74 then Some ([], InLiteral (js ''rue'') TTrue)
      else if c = 0x66 then Some ([], InLiteral (js ''alse'') TFalse)
      else if c = 0x6E then Some ([], InLiteral (js ''ull'') TNull)
      else None)"

fun lex_step :: "lexmode \<Rightarrow> jschar \<Rightarrow> (token list \<times> lexmode) option" where
  "lex_step Idle c = idle_step c"
| "lex_step (InString acc) c =
     (if c = 0x22 then Some ([TString acc], Idle)
      else if c = 0x5C then Some ([], InEscape acc)
      else if c < 0x20 then None
      else Some ([], InString (acc @ [c])))"
| "lex_step (InEscape acc) c =
     (if c = 0x75 then Some ([], InUnicode acc [])
      else case escapeUnit c of
          None \<Rightarrow> None
        | Some u \<Rightarrow> Some ([], InString (acc @ [u])))"
| "lex_step (InUnicode acc ds) c =
     (case hexValue c of
        None \<Rightarrow> None
      | Some d \<Rightarrow>
          (if length ds = 3 then Some ([], InString (acc @ [hexUnit (ds @ [d])]))
           else Some ([], InUnicode acc (ds @ [d]))))"
| "lex_step (InNumber ns lexeme) c =
     (case num_step ns c of
        Some ns' \<Rightarrow> Some ([], InNumber ns' (lexeme @ [c]))
      | None \<Rightarrow>
          (if num_complete ns then
             (case idle_step c of
                None \<Rightarrow> None
              | Some (toks, m) \<Rightarrow> Some (TNumber lexeme # toks, m))
           else None))"
| "lex_step (InLiteral [] tok) c = None"
| "lex_step (InLiteral (e # es) tok) c =
     (if c \<noteq> e then None
      else if es = [] then Some ([tok], Idle)
      else Some ([], InLiteral es tok))"

fun lex :: "lexmode \<Rightarrow> jsstring \<Rightarrow> token list option" where
  "lex m [] =
     (case m of
        Idle \<Rightarrow> Some []
      | InNumber ns lexeme \<Rightarrow> (if num_complete ns then Some [TNumber lexeme] else None)
      | _ \<Rightarrow> None)"
| "lex m (c # cs) =
     (case lex_step m c of
        None \<Rightarrow> None
      | Some (toks, m') \<Rightarrow> map_option ((@) toks) (lex m' cs))"

text \<open>
  The parser reads one token at a time. \<open>frame\<close> is a container under construction:
  an array with its elements so far, an object with its members so far, or an object
  waiting for the value of a key. \<open>expect\<close> is what may come next.
\<close>

datatype frame =
    FArray "json list"
  | FObject "(jsstring \<times> json) list"
  | FMember "(jsstring \<times> json) list" jsstring

datatype expect =
    Value | ValueOrClose | KeyOrClose | Key | Colon | CommaOrClose | End json

fun complete :: "json \<Rightarrow> frame list \<Rightarrow> (expect \<times> frame list) option" where
  "complete v [] = Some (End v, [])"
| "complete v (FArray es # st) = Some (CommaOrClose, FArray (es @ [v]) # st)"
| "complete v (FMember ms k # st) = Some (CommaOrClose, FObject (ms @ [(k, v)]) # st)"
| "complete v (FObject ms # st) = None"

fun scalar :: "token \<Rightarrow> json option" where
  "scalar (TString s) = Some (JString s)"
| "scalar (TNumber n) = Some (JNumber n)"
| "scalar TTrue = Some (JBool True)"
| "scalar TFalse = Some (JBool False)"
| "scalar TNull = Some JNull"
| "scalar _ = None"

definition value_step :: "token \<Rightarrow> frame list \<Rightarrow> (expect \<times> frame list) option" where
  "value_step t st =
     (if t = TLBracket then Some (ValueOrClose, FArray [] # st)
      else if t = TLBrace then Some (KeyOrClose, FObject [] # st)
      else case scalar t of None \<Rightarrow> None | Some v \<Rightarrow> complete v st)"

definition close_step :: "token \<Rightarrow> frame list \<Rightarrow> (expect \<times> frame list) option" where
  "close_step t st =
     (case (t, st) of
        (TRBracket, FArray es # st') \<Rightarrow> complete (JArray es) st'
      | (TRBrace, FObject ms # st') \<Rightarrow> complete (JObject ms) st'
      | _ \<Rightarrow> None)"

definition key_step :: "token \<Rightarrow> frame list \<Rightarrow> (expect \<times> frame list) option" where
  "key_step t st =
     (case (t, st) of
        (TString k, FObject ms # st') \<Rightarrow> Some (Colon, FMember ms k # st')
      | _ \<Rightarrow> None)"

fun parse_step :: "expect \<Rightarrow> token \<Rightarrow> frame list \<Rightarrow> (expect \<times> frame list) option" where
  "parse_step Value t st = value_step t st"
| "parse_step ValueOrClose t st =
     (if t = TRBracket then close_step t st else value_step t st)"
| "parse_step KeyOrClose t st =
     (if t = TRBrace then close_step t st else key_step t st)"
| "parse_step Key t st = key_step t st"
| "parse_step Colon t st = (if t = TColon then Some (Value, st) else None)"
| "parse_step CommaOrClose t st =
     (if t = TComma then
        (case st of
           FArray es # st' \<Rightarrow> Some (Value, st)
         | FObject ms # st' \<Rightarrow> Some (Key, st)
         | _ \<Rightarrow> None)
      else close_step t st)"
| "parse_step (End v) t st = None"

fun parse :: "expect \<Rightarrow> frame list \<Rightarrow> token list \<Rightarrow> json option" where
  "parse e st [] = (case e of End v \<Rightarrow> Some v | _ \<Rightarrow> None)"
| "parse e st (t # ts) =
     (case parse_step e t st of
        None \<Rightarrow> None
      | Some (e', st') \<Rightarrow> parse e' st' ts)"

definition JSON_parse :: "jsstring \<Rightarrow> json option" where
  "JSON_parse text =
     (case lex Idle text of None \<Rightarrow> None | Some toks \<Rightarrow> parse Value [] toks)"

section \<open>components/VideoAnalyzer.tsx\<close>

subsection \<open>Numbers\<close>

text \<open>
  A JavaScript number is an IEEE 754 binary64 value, and every arithmetic operation gives
  the binary64 value nearest to the exact result, a tie going to the even significand.
  The finite numbers are modelled as the rationals they denote: \<open>binary64 x\<close> is the
  number nearest to the rational \<open>x\<close>, and \<open>isDouble x\<close> says that \<open>x\<close> is a number.

  \<open>rne q\<close> is the integer nearest to \<open>q\<close>, ties to even. \<open>expo x\<close> is the binary
  exponent of \<open>x \<noteq> 0\<close>, the \<open>e\<close> with \<open>2^e \<le> |x| < 2^(e+1)\<close>. \<open>ulp x\<close> is the distance
  of the numbers around \<open>x\<close>: 52 binary places below the exponent, and \<open>2^-1074\<close>
  for the subnormal numbers below \<open>2^-1022\<close>. The overflow to \<open>Infinity\<close> from
  \<open>2^1024\<close> on is not part of \<open>binary64\<close>; \<open>isDouble\<close> excludes it.
\<close>

definition rne :: "rat \<Rightarrow> int" where
  "rne q =
     (let f = \<lfloor>q\<rfloor>; r = q - of_int f
      in if r < 1 / 2 then f else if 1 / 2 < r then f + 1 else if even f then f else f + 1)"

definition expo :: "rat \<Rightarrow> int" where
  "expo x =
     (let (p, q) = quotient_of \<bar>x\<bar>; k = bitlen p - bitlen q
      in if 2 powi k \<le> \<bar>x\<bar> then k else k - 1)"

definition ulp :: "rat \<Rightarrow> rat" where
  "ulp x = 2 powi (max (expo x) (- 1022) - 52)"

definition binary64 :: "rat \<Rightarrow> rat" where
  "binary64 x = (if x = 0 then 0 else of_int (rne (x / ulp x)) * ulp x)"

definition isDouble :: "rat \<Rightarrow> bool" where
  "isDouble x \<longleftrightarrow> binary64 x = x \<and> \<bar>x\<bar> < 2 ^ 1024"

subsection \<open>extractFrames\<close>

text \<open>
  \<open>video.duration\<close> as the handler reads it: \<open>NaN\<close> while it is unknown, \<open>Infinity\<close>
  for a stream, or a number of seconds.
\<close>

datatype Duration = NaN | Infinity | Seconds rat

definition FRAME_COUNT :: nat where
  "FRAME_COUNT = 8"

text \<open>
  \<open>video.duration || 10\<close>: \<open>NaN\<close> and \<open>0\<close> give 10. With \<open>Infinity\<close> the
  products \<open>i * interval\<close> are \<open>NaN\<close> or \<open>Infinity\<close>, no time of the video:
  \<open>None\<close>.
\<close>

definition finalDuration :: "Duration \<Rightarrow> rat option" where
  "finalDuration d =
     (case d of
        NaN \<Rightarrow> Some 10
      | Infinity \<Rightarrow> None
      | Seconds x \<Rightarrow> Some (if x = 0 then 10 else x))"

text \<open>
  \<open>interval = finalDuration / FRAME_COUNT\<close> and
  \<open>time = Math.min(i * interval, finalDuration - 0.1)\<close>: the division, the product and
  the difference are rounded, and the literal \<open>0.1\<close> is the number nearest to 1/10.
  \<open>FRAME_COUNT\<close> and \<open>i\<close> are small integers, which are numbers.
\<close>

definition frameTime :: "rat \<Rightarrow> nat \<Rightarrow> rat" where
  "frameTime fd i =
     (let interval = binary64 (fd / of_nat FRAME_COUNT)
      in min (binary64 (of_nat i * interval)) (binary64 (fd - binary64 (1 / 10))))"

definition frameTimes :: "Duration \<Rightarrow> rat list option" where
  "frameTimes d = map_option (\<lambda>fd. map (frameTime fd) [0..<FRAME_COUNT]) (finalDuration d)"

subsection \<open>handleAnalyze: from the recognition text to the detected VINs\<close>

text \<open>\<open>rawResult.replace(/```json\n|\n```|```/g, '')\<close>.\<close>

definition fenceJson :: jsstring where
  "fenceJson = js ''```json'' @ [0x0A]"

definition fenceEnd :: jsstring where
  "fenceEnd = 0x0A # js ''```''"

definition fence :: jsstring where
  "fence = js ''```''"

fun stripFences :: "jsstring \<Rightarrow> jsstring" where
  "stripFences [] = []"
| "stripFences (c # cs) =
     (if take 8 (c # cs) = fenceJson then stripFences (drop 7 cs)
      else if take 4 (c # cs) = fenceEnd then stripFences (drop 3 cs)
      else if take 3 (c # cs) = fence then stripFences (drop 2 cs)
      else c # stripFences cs)"

text \<open>
  \<open>parsedVins.filter(v => typeof v === 'string' && v.length >= 10 && v.length <= 20)\<close>.
\<close>

fun validVins :: "json list \<Rightarrow> jsstring list" where
  "validVins [] = []"
| "validVins (JString s # vs) =
     (if 10 \<le> length s \<and> length s \<le> 20 then s # validVins vs else validVins vs)"
| "validVins (_ # vs) = validVins vs"

text \<open>
  \<open>rawResult.match(/[A-Z0-9]{10,20}/g)\<close>: at each position the longest run of at most
  20 code units of the class; a run of at least 10 is a match and the search goes on
  behind it, otherwise it goes on at the next position. The empty list is \<open>null\<close>.
\<close>

definition upperOrDigit :: "jschar \<Rightarrow> bool" where
  "upperOrDigit c \<longleftrightarrow> (0x41 \<le> c \<and> c \<le> 0x5A) \<or> (0x30 \<le> c \<and> c \<le> 0x39)"

definition runAt :: "jsstring \<Rightarrow> jsstring" where
  "runAt s = takeWhile upperOrDigit (take 20 s)"

function matchVinRegex :: "jsstring \<Rightarrow> jsstring list" where
  "matchVinRegex [] = []"
| "matchVinRegex (c # cs) =
     (if 10 \<le> length (runAt (c # cs))
      then runAt (c # cs) # matchVinRegex (drop (length (runAt (c # cs))) (c # cs))
      else matchVinRegex cs)"
  by pat_completeness auto
termination
  by (relation "measure length") auto

declare matchVinRegex.simps [simp del]

text \<open>
  The two messages of the analysis: "No potential VINs were detected in the video." and
  "Could not detect any clear VINs in the video frames.".
\<close>

datatype analysisError = NoPotentialVins | CouldNotDetectVins

text \<open>
  What \<open>handleAnalyze\<close> leaves in the state \<open>detectedVins\<close> (\<open>None\<close> is \<open>null\<close>) and in
  \<open>error\<close>, given the text \<open>rawResult\<close> of the recognition call.
\<close>

definition handleAnalyze_parse :: "jsstring \<Rightarrow> jsstring list option \<times> analysisError option" where
  "handleAnalyze_parse rawResult =
     (let cleanedResult = trim (stripFences rawResult)
      in case JSON_parse cleanedResult of
          Some (JArray parsedVins) \<Rightarrow>
            (let uniqueVins = newSet (validVins parsedVins)
             in (Some uniqueVins, if uniqueVins = [] then Some NoPotentialVins else None))
        | _ \<Rightarrow>
            (let matches = matchVinRegex rawResult
             in if matches \<noteq> [] then (Some (newSet matches), None)
                else (None, Some CouldNotDetectVins)))"

subsection \<open>handleGenerateRecords\<close>

text \<open>
  The loop over \<open>detectedVins\<close>. \<open>ticks i\<close> is what the platform supplies in round \<open>i\<close>.
  The duplicate check reads \<open>sessionLogs\<close> of the render in which the handler was
  created (\<open>props\<close>); \<open>onScan\<close> updates the state of the moment.
\<close>

fun saveLoop ::
    "(nat \<Rightarrow> Tick) \<Rightarrow> Props \<Rightarrow> GeolocationCoordinates \<Rightarrow> jsstring list \<Rightarrow> nat
       \<Rightarrow> nat \<times> World \<Rightarrow> nat \<times> World" where
  "saveLoop ticks props loc [] i (addedCount, w) = (addedCount, w)"
| "saveLoop ticks props loc (v # vs) i (addedCount, w) =
     (if \<not> list_ex (\<lambda>log'. vin log' = v) (propSessionLogs props) then
        (let newLogData =
               \<lparr>sessionId = propSessionId props, vin = v,
                parkingArea = propParkingArea props, timestamp = newDate (ticks i),
                location = loc, imageUrl = None, entryMethod = Video,
                userId = uid (currentUser props), userEmail = email (currentUser props)\<rparr>;
             (newLog, w1) = saveAndScan (ticks i) newLogData w
         in saveLoop ticks props loc vs (Suc i) (Suc addedCount, w1))
      else saveLoop ticks props loc vs (Suc i) (addedCount, w))"

text \<open>
  The position: the error callback resolves with latitude 0 and longitude 0.
\<close>

definition videoLocation :: "Position \<Rightarrow> GeolocationCoordinates" where
  "videoLocation position =
     (case position of
        Inl message \<Rightarrow> \<lparr>latitude = 0, longitude = 0\<rparr>
      | Inr loc \<Rightarrow> loc)"

text \<open>
  The result is the count of the success message, or \<open>None\<close> when the handler returns
  at once (nothing detected).
\<close>

definition handleGenerateRecords ::
    "Position \<Rightarrow> (nat \<Rightarrow> Tick) \<Rightarrow> Props \<Rightarrow> jsstring list option \<Rightarrow> World
       \<Rightarrow> nat option \<times> World" where
  "handleGenerateRecords position ticks props detectedVins w =
     (case detectedVins of
        None \<Rightarrow> (None, w)
      | Some vins \<Rightarrow>
          (if vins = [] then (None, w)
           else (let (addedCount, w1) = saveLoop ticks props (videoLocation position) vins 0 (0, w)
                 in (Some addedCount, w1))))"

section \<open>Runs of the application\<close>

abbreviation auditLog :: "World \<Rightarrow> ScanLog list" where
  "auditLog w \<equiv> mockFirestore (firestore w)"

abbreviation ledger :: "World \<Rightarrow> ScanLog list" where
  "ledger w \<equiv> sessionLogs (app w)"

text \<open>
  The application as loaded with nothing in \<open>localStorage\<close>: an empty log, the welcome
  screen, no session.
\<close>

definition initialWorld :: World where
  "initialWorld =
     \<lparr>firestore = \<lparr>mockFirestore = [], localStorage = None\<rparr>,
      app = \<lparr>screen = Welcome, selectedArea = [], currentSessionId = [], sessionLogs = []\<rparr>\<rparr>"

text \<open>
  The worlds an agent \<open>u\<close> can reach when every handler has finished before the next
  one starts, so that each handler sees the state the one before left. The inputs come
  from where the components take them: the manual VIN is what \<open>handleVinChange\<close> left in
  the input field, the camera VIN is what \<open>extractVinFromImage\<close> returned, the video
  VINs are what \<open>handleAnalyze\<close> detected.
\<close>

inductive reachable :: "User \<Rightarrow> World \<Rightarrow> bool" for u :: User where
  at_load: "reachable u initialWorld"
| by_start: "reachable u w \<Longrightarrow> reachable u (w\<lparr>app := handleStart now area (app w)\<rparr>)"
| by_finish: "reachable u w \<Longrightarrow> reachable u (w\<lparr>app := handleFinish (app w)\<rparr>)"
| by_back: "reachable u w \<Longrightarrow> reachable u (w\<lparr>app := handleBackToScan (app w)\<rparr>)"
| by_startNew: "reachable u w \<Longrightarrow> reachable u (w\<lparr>app := handleStartNewCheck (app w)\<rparr>)"
| by_manual:
    "reachable u w \<Longrightarrow>
     reachable u (snd (ManualVinInput_handleSubmit position t (commonProps u (app w))
                         (handleVinChange toUpperCase typed) w))"
| by_camera:
    "reachable u w \<Longrightarrow> extractVinFromImage response = Inr v \<Longrightarrow>
     reachable u (snd (confirmVin position mockUrl t (commonProps u (app w))
                         (Some v) capturedImage w))"
| by_upload:
    "reachable u w \<Longrightarrow>
     reachable u (snd (ImageAnalyzer_handleSubmit position base64Image response mockUrl t
                         (commonProps u (app w)) imageFile w))"
| by_video:
    "reachable u w \<Longrightarrow>
     reachable u (snd (handleGenerateRecords position ticks (commonProps u (app w))
                         (fst (handleAnalyze_parse rawResult)) w))"

text \<open>
  \<open>inSession u w w'\<close>: the world \<open>w'\<close> comes from \<open>w\<close> by capture attempts of any kind,
  one after the other, without a new session being started in between.
\<close>

inductive inSession :: "User \<Rightarrow> World \<Rightarrow> World \<Rightarrow> bool" for u :: User and w :: World where
  at_once: "inSession u w w"
| after_finish: "inSession u w w1 \<Longrightarrow> inSession u w (w1\<lparr>app := handleFinish (app w1)\<rparr>)"
| after_back: "inSession u w w1 \<Longrightarrow> inSession u w (w1\<lparr>app := handleBackToScan (app w1)\<rparr>)"
| after_manual:
    "inSession u w w1 \<Longrightarrow>
     inSession u w (snd (ManualVinInput_handleSubmit position t (commonProps u (app w1)) v w1))"
| after_camera:
    "inSession u w w1 \<Longrightarrow>
     inSession u w (snd (confirmVin position mockUrl t (commonProps u (app w1))
                          vinState capturedImage w1))"
| after_upload:
    "inSession u w w1 \<Longrightarrow>
     inSession u w (snd (ImageAnalyzer_handleSubmit position base64Image response mockUrl t
                          (commonProps u (app w1)) imageFile w1))"
| after_video:
    "inSession u w w1 \<Longrightarrow>
     inSession u w (snd (handleGenerateRecords position ticks (commonProps u (app w1))
                          detectedVins w1))"

text \<open>
  Overlapping confirmations. JavaScript runs one handler at a time, but a handler gives
  way at each \<open>await\<close>. A handler started by \<open>Click k\<close> runs \<open>confirmVin_check\<close> on
  the state of that moment and then waits; \<open>Resume k\<close> runs its \<open>confirmVin_save\<close>, in
  one step. \<open>Confirmation\<close> holds what handler \<open>k\<close> is given.
\<close>

record Confirmation =
  cPosition :: Position
  cMockUrl :: jsstring
  cTick :: Tick
  cVin :: "jsstring option"
  cImage :: "Blob option"

datatype event = Click nat | Resume nat

record Run =
  world :: World
  waiting :: "nat \<Rightarrow> (Props \<times> jsstring \<times> Blob) option"
  outcome :: "nat \<Rightarrow> (error + ScanLog) option"

fun run_event :: "User \<Rightarrow> (nat \<Rightarrow> Confirmation) \<Rightarrow> Run \<Rightarrow> event \<Rightarrow> Run" where
  "run_event u cs r (Click k) =
     (let props = commonProps u (app (world r))
      in case confirmVin_check props (cVin (cs k)) (cImage (cs k)) of
          Inl e \<Rightarrow> r\<lparr>outcome := (outcome r)(k := Some (Inl e))\<rparr>
        | Inr vi \<Rightarrow> r\<lparr>waiting := (waiting r)(k := Some (props, vi))\<rparr>)"
| "run_event u cs r (Resume k) =
     (case waiting r k of
        None \<Rightarrow> r
      | Some (props, vi) \<Rightarrow>
          (let (res, w1) = confirmVin_save (cPosition (cs k)) (cMockUrl (cs k)) (cTick (cs k))
                             props vi (world r)
           in r\<lparr>world := w1, waiting := (waiting r)(k := None),
                 outcome := (outcome r)(k := Some res)\<rparr>))"

definition run_events :: "User \<Rightarrow> (nat \<Rightarrow> Confirmation) \<Rightarrow> event list \<Rightarrow> World \<Rightarrow> Run" where
  "run_events u cs evs w =
     foldl (run_event u cs) \<lparr>world = w, waiting = (\<lambda>k. None), outcome = (\<lambda>k. None)\<rparr> evs"

section \<open>Sample data\<close>

text \<open>
  An agent, a session started at "Dock 7", and what the platform supplies, for the
  concrete runs below.
\<close>

definition ex_user :: User where
  "ex_user = \<lparr>uid = js ''agent_1'', email = js ''agent@agent.com''\<rparr>"

definition ex_date :: LocalDate where
  "ex_date =
     \<lparr>getDate = 3, getMonth = 10, getFullYear = 2026, getHours = 9, getMinutes = 30,
      getSeconds = 5, getMilliseconds = 42\<rparr>"

definition ex_dock7 :: World where
  "ex_dock7 = initialWorld\<lparr>app := handleStart ex_date (js ''Dock 7'') (app initialWorld)\<rparr>"

definition ex_ticks :: "nat \<Rightarrow> Tick" where
  "ex_ticks i =
     \<lparr>newDate = 1000 + i, dateNow = 1000 + i, random36 = js ''k3j9x0q1z'', storageOk = True\<rparr>"

definition ex_here :: GeolocationCoordinates where
  "ex_here = \<lparr>latitude = 40, longitude = - 3\<rparr>"

definition ex_photo :: Blob where
  "ex_photo = [0xFF, 0xD8]"

definition ex_base64 :: jsstring where
  "ex_base64 = js ''/9j/4AAQSkZJRg==''"

definition ex_url :: jsstring where
  "ex_url = js ''blob:1''"

definition ex_vin :: jsstring where
  "ex_vin = js ''1G1FW1R77J4100000''"

text \<open>
  Three attempts in the session at "Dock 7", each on the freshly started session: a
  manual entry of \<open>ex_vin\<close>, a camera confirmation of \<open>ex_vin\<close>, and a video batch for
  the recognition text \<open>["abcdefghij"]\<close>.
\<close>

definition ex_manual_entry :: "(error + ScanLog) \<times> World" where
  "ex_manual_entry =
     ManualVinInput_handleSubmit (Inr ex_here) (ex_ticks 0) (commonProps ex_user (app ex_dock7))
       ex_vin ex_dock7"

definition ex_camera_entry :: "(error + ScanLog) \<times> World" where
  "ex_camera_entry =
     confirmVin (Inr ex_here) ex_url (ex_ticks 0) (commonProps ex_user (app ex_dock7))
       (Some ex_vin) (Some ex_photo) ex_dock7"

definition ex_video_batch :: "nat option \<times> World" where
  "ex_video_batch =
     handleGenerateRecords (Inr ex_here) ex_ticks (commonProps ex_user (app ex_dock7))
       (fst (handleAnalyze_parse (js ''[\"abcdefghij\"]''))) ex_dock7"

text \<open>Later in the session of the manual entry: a video batch has stored another VIN.\<close>

definition ex_later :: World where
  "ex_later =
     snd (handleGenerateRecords (Inr ex_here) ex_ticks
            (commonProps ex_user (app (snd ex_manual_entry)))
            (Some [js ''ABCDEFGHIJ1234'']) (snd ex_manual_entry))"

definition ex_confirmations :: "nat \<Rightarrow> Confirmation" where
  "ex_confirmations k =
     \<lparr>cPosition = Inr ex_here, cMockUrl = ex_url, cTick = ex_ticks k,
      cVin = Some ex_vin, cImage = Some ex_photo\<rparr>"

section \<open>The identifiers of stored records\<close>

text \<open>
  What holds of the identifier of a stored record: 17 code units of the class
  \<open>vinChar\<close> for a record of the camera, the upload or the manual entry, and 10 to 20
  code units for a record of the video batch.
\<close>

definition wellformedVin :: "ScanLog \<Rightarrow> bool" where
  "wellformedVin r \<longleftrightarrow>
     (if entryMethod r = Video then 10 \<le> length (vin r) \<and> length (vin r) \<le> 20
      else length (vin r) = 17 \<and> list_all vinChar (vin r))"

section \<open>The alphabet in the words of the specification\<close>

text \<open>
  The specification writes the alphabet of the single-identifier parser as
  \<open>{A-H, J-N, P-R, 0-9}\<close>. \<open>specAlphabet\<close> is that set, to be compared with the class
  \<open>vinChar\<close> of the code.
\<close>

definition specAlphabet :: "jschar \<Rightarrow> bool" where
  "specAlphabet c \<longleftrightarrow>
     (0x41 \<le> c \<and> c \<le> 0x48) \<or> (0x4A \<le> c \<and> c \<le> 0x4E) \<or> (0x50 \<le> c \<and> c \<le> 0x52)
     \<or> (0x30 \<le> c \<and> c \<le> 0x39)"

section \<open>The append of the audit log\<close>

lemma mockFirestore_saveToLocalStorage:
  "mockFirestore (saveToLocalStorage ok db) = mockFirestore db"
  by (simp add: saveToLocalStorage_def)

lemma addScanLog_store:
  "mockFirestore (snd (addScanLog t d db)) = mockFirestore db @ [fst (addScanLog t d db)]"
  by (simp add: addScanLog_def Let_def mockFirestore_saveToLocalStorage)

lemma addScanLog_fields:
  "ScanLogData.truncate (fst (addScanLog t d db)) = d"
  by (simp add: addScanLog_def Let_def ScanLogData.truncate_def ScanLogData.extend_def)

text \<open>
  C10. For every candidate \<open>d\<close> and every prior store, \<open>addScanLog\<close> returns a record
  whose fields other than the generated id are those of \<open>d\<close>, the store afterwards is
  the prior store followed by exactly that record, so every record stored before is
  still there, at its position, unchanged.
\<close>

theorem addScanLog_appends_one:
  "ScanLogData.truncate (fst (addScanLog t d db)) = d
   \<and> logId (fst (addScanLog t d db)) = newLogId t
   \<and> mockFirestore (snd (addScanLog t d db)) = mockFirestore db @ [fst (addScanLog t d db)]
   \<and> length (mockFirestore (snd (addScanLog t d db))) = Suc (length (mockFirestore db))
   \<and> take (length (mockFirestore db)) (mockFirestore (snd (addScanLog t d db))) = mockFirestore db"
  by (simp add: addScanLog_store addScanLog_fields)
     (simp add: addScanLog_def Let_def ScanLogData.extend_def ScanLog.fields_def)

section \<open>Single-identifier parsing\<close>

lemma filter_dropWhile_disjoint:
  "(\<And>x. Q x \<Longrightarrow> \<not> P x) \<Longrightarrow> filter P (dropWhile Q xs) = filter P xs"
  by (induction xs) auto

lemma whiteSpace_not_vinChar: "isWhiteSpace c \<Longrightarrow> \<not> vinChar c"
  unfolding isWhiteSpace_def vinChar_def word_le_nat_alt
  by auto

lemma filter_vinChar_trim: "filter vinChar (trim s) = filter vinChar s"
proof -
  have "filter vinChar (trim s) =
        rev (filter vinChar (dropWhile isWhiteSpace (rev (dropWhile isWhiteSpace s))))"
    by (simp add: trim_def rev_filter)
  also have "\<dots> = rev (filter vinChar (rev (dropWhile isWhiteSpace s)))"
    by (simp add: filter_dropWhile_disjoint whiteSpace_not_vinChar)
  also have "\<dots> = filter vinChar (dropWhile isWhiteSpace s)"
    by (simp add: rev_filter)
  also have "\<dots> = filter vinChar s"
    by (simp add: filter_dropWhile_disjoint whiteSpace_not_vinChar)
  finally show ?thesis .
qed

lemma extractVinFromImage_Some:
  "extractVinFromImage (Some text) =
     (if length (filter vinChar text) = 17 then Inr (filter vinChar text)
      else Inl CouldNotRecognizeVin)"
  by (simp add: extractVinFromImage_def Let_def filter_vinChar_trim)

text \<open>
  C3, as amended. For every recognition text, the code units outside the class
  \<open>[A-HJ-NPR-Z0-9]\<close> (the upper-case letters without I, O and Q, and the digits) are
  removed; when other than 17 remain the operation fails with the recognition error,
  and when exactly 17 remain they are returned, in their order.
\<close>

theorem extractVinFromImage_strips:
  "extractVinFromImage (Some text) =
     (if length (filter vinChar text) = 17 then Inr (filter vinChar text)
      else Inl CouldNotRecognizeVin)"
  by (rule extractVinFromImage_Some)

text \<open>
  C3, as stated, fails for the alphabet \<open>{A-H, J-N, P-R, 0-9}\<close>: of
  \<open>1G1FW1R77J4100000\<close> only 16 code units are in that set (\<open>W\<close> is not), yet the code
  returns all 17.
\<close>

theorem extractVinFromImage_specAlphabet_counterexample:
  "length (filter specAlphabet (js ''1G1FW1R77J4100000'')) = 16
   \<and> extractVinFromImage (Some (js ''1G1FW1R77J4100000'')) = Inr (js ''1G1FW1R77J4100000'')"
  by (simp add: extractVinFromImage_Some js_def vinChar_def specAlphabet_def)

section \<open>Deduplication and the two stages of the video parser\<close>

lemma foldl_setInsert:
  "distinct acc \<Longrightarrow>
     distinct (foldl setInsert acc xs) \<and> set (foldl setInsert acc xs) = set acc \<union> set xs"
  by (induction xs arbitrary: acc) (auto simp: setInsert_def)

lemma distinct_newSet: "distinct (newSet xs)"
  using foldl_setInsert [of "[]" xs] by (simp add: newSet_def)

lemma set_newSet: "set (newSet xs) = set xs"
  using foldl_setInsert [of "[]" xs] by (simp add: newSet_def)

lemma newSet_Nil_iff: "newSet xs = [] \<longleftrightarrow> xs = []"
  using set_newSet [of xs] by (metis set_empty)

lemma set_validVins:
  "set (validVins vs) = {s. JString s \<in> set vs \<and> 10 \<le> length s \<and> length s \<le> 20}"
  by (induction vs rule: validVins.induct) auto

lemma length_runAt: "length (runAt s) \<le> 20"
proof -
  have "length (takeWhile upperOrDigit (take 20 s)) \<le> length (take 20 s)"
    by (rule length_takeWhile_le)
  then show ?thesis by (simp add: runAt_def)
qed

lemma list_all_runAt: "list_all upperOrDigit (runAt s)"
  by (simp add: runAt_def list_all_iff) (meson set_takeWhileD)

lemma runAt_take: "runAt s = take (length (runAt s)) s"
proof -
  have "runAt s = take (length (runAt s)) (take 20 s)"
    unfolding runAt_def by (rule takeWhile_eq_take)
  with length_runAt [of s] show ?thesis by (simp add: min_def)
qed

text \<open>Every match is a run of 10 to 20 code units of the class, and a part of the text.\<close>

lemma matchVinRegex_sound:
  "m \<in> set (matchVinRegex s) \<Longrightarrow>
     10 \<le> length m \<and> length m \<le> 20 \<and> list_all upperOrDigit m \<and> (\<exists>pre post. s = pre @ m @ post)"
proof (induction s rule: matchVinRegex.induct)
  case 1
  then show ?case by (simp add: matchVinRegex.simps)
next
  case (2 c cs)
  let ?r = "runAt (c # cs)"
  show ?case
  proof (cases "10 \<le> length ?r")
    case True
    from "2.prems" True have "m = ?r \<or> m \<in> set (matchVinRegex (drop (length ?r) (c # cs)))"
      by (simp add: matchVinRegex.simps)
    then show ?thesis
    proof
      assume m: "m = ?r"
      have "c # cs = ?r @ drop (length ?r) (c # cs)"
        using runAt_take [of "c # cs"] by (metis append_take_drop_id)
      then have "c # cs = [] @ m @ drop (length ?r) (c # cs)" using m by simp
      then have "\<exists>pre post. c # cs = pre @ m @ post" by blast
      with m True length_runAt [of "c # cs"] list_all_runAt [of "c # cs"] show ?thesis by simp
    next
      assume "m \<in> set (matchVinRegex (drop (length ?r) (c # cs)))"
      from "2.IH"(1) [OF True this] obtain pre post where
        a: "10 \<le> length m" "length m \<le> 20" "list_all upperOrDigit m"
        and b: "drop (length ?r) (c # cs) = pre @ m @ post" by blast
      have "c # cs = take (length ?r) (c # cs) @ drop (length ?r) (c # cs)" by simp
      with b have "c # cs = (take (length ?r) (c # cs) @ pre) @ m @ post" by simp
      then have "\<exists>pre post. c # cs = pre @ m @ post" by blast
      with a show ?thesis by simp
    qed
  next
    case False
    with "2.prems" have "m \<in> set (matchVinRegex cs)" by (simp add: matchVinRegex.simps)
    from "2.IH"(2) [OF False this] obtain pre post where
      a: "10 \<le> length m" "length m \<le> 20" "list_all upperOrDigit m"
      and b: "cs = pre @ m @ post" by blast
    from b have "c # cs = (c # pre) @ m @ post" by simp
    then have "\<exists>pre post. c # cs = pre @ m @ post" by blast
    with a show ?thesis by simp
  qed
qed

text \<open>
  A run that stands alone is found: text before it that holds no match and does not
  end inside a run is skipped, and the run is matched whole when no code unit of the
  class follows it.
\<close>

lemma takeWhile_take_append:
  "\<exists>y \<in> set p. \<not> P y \<Longrightarrow> takeWhile P (take n (p @ r)) = takeWhile P (take n p)"
proof (induction p arbitrary: n)
  case Nil
  then show ?case by simp
next
  case (Cons a p)
  show ?case
  proof (cases n)
    case 0
    then show ?thesis by simp
  next
    case (Suc k)
    show ?thesis
    proof (cases "P a")
      case True
      with Cons.prems have "\<exists>y \<in> set p. \<not> P y" by simp
      from Cons.IH [OF this] True Suc show ?thesis by simp
    next
      case False
      with Suc show ?thesis by simp
    qed
  qed
qed

lemma runAt_append:
  "p \<noteq> [] \<Longrightarrow> \<not> upperOrDigit (last p) \<Longrightarrow> runAt (p @ r) = runAt p"
  unfolding runAt_def by (rule takeWhile_take_append) (metis last_in_set)

lemma matchVinRegex_skip:
  "matchVinRegex p = [] \<Longrightarrow> p = [] \<or> \<not> upperOrDigit (last p) \<Longrightarrow>
     matchVinRegex (p @ r) = matchVinRegex r"
proof (induction p)
  case Nil
  then show ?case by simp
next
  case (Cons c cs)
  from Cons.prems(1) have short: "\<not> 10 \<le> length (runAt (c # cs))"
    by (auto simp: matchVinRegex.simps split: if_splits)
  with Cons.prems(1) have rest: "matchVinRegex cs = []"
    by (simp add: matchVinRegex.simps)
  from Cons.prems(2) have nl: "\<not> upperOrDigit (last (c # cs))" by simp
  then have "runAt ((c # cs) @ r) = runAt (c # cs)" by (intro runAt_append) simp_all
  with short have "matchVinRegex ((c # cs) @ r) = matchVinRegex (cs @ r)"
    by (simp add: matchVinRegex.simps)
  moreover from nl have "cs = [] \<or> \<not> upperOrDigit (last cs)" by (cases cs) auto
  ultimately show ?case using Cons.IH rest by simp
qed

lemma runAt_whole:
  assumes "list_all upperOrDigit x" "length x \<le> 20" "post = [] \<or> \<not> upperOrDigit (hd post)"
  shows "runAt (x @ post) = x"
proof -
  have "take 20 (x @ post) = x @ take (20 - length x) post" using assms(2) by simp
  moreover have "takeWhile upperOrDigit (x @ take (20 - length x) post)
      = x @ takeWhile upperOrDigit (take (20 - length x) post)"
    using assms(1) by (simp add: list_all_iff)
  moreover have "takeWhile upperOrDigit (take (20 - length x) post) = []"
    using assms(3) by (cases post; cases "20 - length x") auto
  ultimately show ?thesis by (simp add: runAt_def)
qed

lemma matchVinRegex_hit:
  assumes "list_all upperOrDigit x" "10 \<le> length x" "length x \<le> 20"
    "post = [] \<or> \<not> upperOrDigit (hd post)"
  shows "matchVinRegex (x @ post) = x # matchVinRegex post"
proof -
  from assms(2) obtain c cs where cs: "x @ post = c # cs" by (cases x) auto
  have r: "runAt (c # cs) = x" using runAt_whole [OF assms(1,3,4)] cs by simp
  have "matchVinRegex (c # cs) = x # matchVinRegex (drop (length x) (c # cs))"
    using r assms(2) by (simp add: matchVinRegex.simps)
  moreover have "drop (length x) (c # cs) = post" using cs [symmetric] by simp
  ultimately show ?thesis using cs by simp
qed

lemma matchVinRegex_isolated:
  assumes "list_all upperOrDigit x" "10 \<le> length x" "length x \<le> 20"
    and "matchVinRegex pre = []" "pre = [] \<or> \<not> upperOrDigit (last pre)"
    and "matchVinRegex post = []" "post = [] \<or> \<not> upperOrDigit (hd post)"
  shows "matchVinRegex (pre @ x @ post) = [x]"
  using matchVinRegex_skip [OF assms(4,5), of "x @ post"]
    matchVinRegex_hit [OF assms(1,2,3,7)] assms(6)
  by simp

lemma handleAnalyze_parse_json:
  "JSON_parse (trim (stripFences raw)) = Some (JArray vs) \<Longrightarrow>
     handleAnalyze_parse raw =
       (Some (newSet (validVins vs)),
        if newSet (validVins vs) = [] then Some NoPotentialVins else None)"
  by (simp add: handleAnalyze_parse_def Let_def)

lemma handleAnalyze_parse_fallback:
  "\<forall>vs. JSON_parse (trim (stripFences raw)) \<noteq> Some (JArray vs) \<Longrightarrow>
     handleAnalyze_parse raw =
       (if matchVinRegex raw = [] then (None, Some CouldNotDetectVins)
        else (Some (newSet (matchVinRegex raw)), None))"
  by (auto simp: handleAnalyze_parse_def Let_def split: option.splits json.splits)

lemma detected_example1:
  "handleAnalyze_parse (js ''[\"1G1FW1R77J4100000\",\"1G1FW1R77J4100000\"]'')
     = (Some [js ''1G1FW1R77J4100000''], None)"
  by code_simp

lemma detected_example2:
  "handleAnalyze_parse (js ''The VIN is ABCDEFGHIJ1234.'') = (Some [js ''ABCDEFGHIJ1234''], None)"
  by code_simp

text \<open>
  The fences: a text without a backquote is left as it is, and of a text between
  \<open>```json\<close> with its line end and a line end with \<open>```\<close> the inside is left. A run
  of the class after text without a match is found, and the search goes on behind it.
\<close>

lemma fence_units:
  "fenceJson = [0x60, 0x60, 0x60, 0x6A, 0x73, 0x6F, 0x6E, 0x0A]"
  "fenceEnd = [0x0A, 0x60, 0x60, 0x60]"
  "fence = [0x60, 0x60, 0x60]"
  by code_simp+

lemma stripFences_plain: "0x60 \<notin> set s \<Longrightarrow> stripFences s = s"
proof (induction s)
  case Nil
  then show ?case by simp
next
  case (Cons c cs)
  then show ?case by (cases cs) (auto simp: fence_units)
qed

lemma stripFences_fenceEnd: "0x60 \<notin> set body \<Longrightarrow> stripFences (body @ fenceEnd) = body"
proof (induction body)
  case Nil
  then show ?case by (simp add: fence_units)
next
  case (Cons c cs)
  then show ?case by (cases cs) (auto simp: fence_units)
qed

lemma stripFences_fenceJson: "stripFences (fenceJson @ s) = stripFences s"
  by (simp add: fence_units)

lemma stripFences_fenced:
  "0x60 \<notin> set body \<Longrightarrow> stripFences (fenceJson @ body @ fenceEnd) = body"
  by (simp add: stripFences_fenceJson stripFences_fenceEnd)

lemma matchVinRegex_chain:
  assumes "list_all upperOrDigit x" "10 \<le> length x" "length x \<le> 20"
    and "matchVinRegex pre = []" "pre = [] \<or> \<not> upperOrDigit (last pre)"
    and "post = [] \<or> \<not> upperOrDigit (hd post)"
  shows "matchVinRegex (pre @ x @ post) = x # matchVinRegex post"
  using matchVinRegex_skip [OF assms(4,5), of "x @ post"]
    matchVinRegex_hit [OF assms(1,2,3,6)]
  by simp

lemma detected_fenced:
  "handleAnalyze_parse (js ''```json'' @ [0x0A] @ js ''[\"abcdefghij\",\"1G1FW1R77J4100000\"]'' @ [0x0A] @ js ''```'')
     = (Some [js ''abcdefghij'', js ''1G1FW1R77J4100000''], None)"
  by code_simp

lemma detected_plain_fence:
  "handleAnalyze_parse (js ''```'' @ [0x0A] @ js ''[\"abcdefghij\"]'' @ [0x0A] @ js ''```'')
     = (Some [js ''abcdefghij''], None)"
  by code_simp

lemma detected_mixed_array:
  "handleAnalyze_parse (js ''[\"abcdefghij\", 7, \"short\", \"1G1FW1R77J4100000\", \"abcdefghij\"]'')
     = (Some [js ''abcdefghij'', js ''1G1FW1R77J4100000''], None)"
  by code_simp

lemma detected_nothing_valid:
  "handleAnalyze_parse (js ''[\"ABCDEFGHIJKLMNOPQRSTUVWXYZ\"]'') = (Some [], Some NoPotentialVins)"
  by code_simp

lemma detected_nbsp:
  "handleAnalyze_parse ([0xA0] @ js ''[\"ABCDEFGHIJ\",\"abcdefghij\"]'')
     = (Some [js ''ABCDEFGHIJ'', js ''abcdefghij''], None)"
  by code_simp

lemma detected_two_runs:
  "handleAnalyze_parse (js ''Found ABCDEFGHIJ1234 and 1G1FW1R77J4100000, then ABCDEFGHIJ1234 again.'')
     = (Some [js ''ABCDEFGHIJ1234'', js ''1G1FW1R77J4100000''], None)"
  by code_simp

lemma detected_long_run:
  "handleAnalyze_parse (js ''ABCDEFGHIJ0123456789KLMNOPQRST'')
     = (Some [js ''ABCDEFGHIJ0123456789'', js ''KLMNOPQRST''], None)"
  by code_simp

lemma detected_none:
  "handleAnalyze_parse (js ''no vin here'') = (None, Some CouldNotDetectVins)"
  by code_simp

text \<open>
  C4. The video parser has two stages. When the text, with the code fences removed and
  trimmed, parses as a JSON array, the detected VINs are its string elements of length
  10 to 20, without repetition, and there is no second stage, also when no element is
  left. When it does not parse, or parses to something that is no array, the detected
  VINs are the matches of \<open>/[A-Z0-9]{10,20}/g\<close> in the raw text, without
  repetition; each is a run of 10 to 20 upper-case letters or digits of the raw text, a
  run that stands alone in text without other matches is the one VIN detected, and a
  run after text without a match is followed by the matches behind it. The fences
  \<open>```json\<close> and \<open>```\<close> around an array are removed before it is parsed. The array with
  \<open>1G1FW1R77J4100000\<close> twice gives that VIN once, and \<open>ABCDEFGHIJ1234\<close> inside a
  sentence is found by the second stage. A fenced array gives its elements, lower-case
  ones too, which the second stage would not find; a space that is no JSON white space
  is trimmed; an array of one string of 26 letters gives no VIN; two runs in a sentence
  are both found, a repeated one once; a run of 30 gives its first 20 and its last 10
  code units; a text without a run gives the second message.
\<close>

theorem handleAnalyze_parse_two_stages:
  "(JSON_parse (trim (stripFences raw)) = Some (JArray vs) \<longrightarrow>
      fst (handleAnalyze_parse raw) = Some (newSet (validVins vs))
      \<and> distinct (newSet (validVins vs))
      \<and> set (newSet (validVins vs))
          = {s. JString s \<in> set vs \<and> 10 \<le> length s \<and> length s \<le> 20})
   \<and> ((\<forall>vs. JSON_parse (trim (stripFences raw')) \<noteq> Some (JArray vs)) \<longrightarrow>
      fst (handleAnalyze_parse raw')
        = (if matchVinRegex raw' = [] then None else Some (newSet (matchVinRegex raw')))
      \<and> distinct (newSet (matchVinRegex raw'))
      \<and> set (newSet (matchVinRegex raw')) = set (matchVinRegex raw')
      \<and> (\<forall>m \<in> set (matchVinRegex raw').
            10 \<le> length m \<and> length m \<le> 20 \<and> list_all upperOrDigit m
            \<and> (\<exists>pre post. raw' = pre @ m @ post)))
   \<and> ((\<forall>vs. JSON_parse (trim (stripFences (pre @ x @ post))) \<noteq> Some (JArray vs))
        \<and> list_all upperOrDigit x \<and> 10 \<le> length x \<and> length x \<le> 20
        \<and> matchVinRegex pre = [] \<and> (pre = [] \<or> \<not> upperOrDigit (last pre))
        \<and> matchVinRegex post = [] \<and> (post = [] \<or> \<not> upperOrDigit (hd post)) \<longrightarrow>
      handleAnalyze_parse (pre @ x @ post) = (Some [x], None))
   \<and> handleAnalyze_parse (js ''[\"1G1FW1R77J4100000\",\"1G1FW1R77J4100000\"]'')
        = (Some [js ''1G1FW1R77J4100000''], None)
   \<and> handleAnalyze_parse (js ''The VIN is ABCDEFGHIJ1234.'') = (Some [js ''ABCDEFGHIJ1234''], None)
   \<and> (JSON_parse (trim (stripFences raw)) = Some (JArray vs) \<longrightarrow>
      snd (handleAnalyze_parse raw)
        = (if newSet (validVins vs) = [] then Some NoPotentialVins else None))
   \<and> ((\<forall>vs. JSON_parse (trim (stripFences raw')) \<noteq> Some (JArray vs)) \<longrightarrow>
      snd (handleAnalyze_parse raw')
        = (if matchVinRegex raw' = [] then Some CouldNotDetectVins else None))
   \<and> (0x60 \<notin> set body \<longrightarrow>
      stripFences body = body \<and> stripFences (fenceJson @ body @ fenceEnd) = body)
   \<and> (0x60 \<notin> set body \<and> JSON_parse (trim body) = Some (JArray elems) \<longrightarrow>
      handleAnalyze_parse (fenceJson @ body @ fenceEnd) = handleAnalyze_parse body
      \<and> fst (handleAnalyze_parse (fenceJson @ body @ fenceEnd)) = Some (newSet (validVins elems)))
   \<and> (matchVinRegex before = [] \<and> (before = [] \<or> \<not> upperOrDigit (last before))
        \<and> list_all upperOrDigit run \<and> 10 \<le> length run \<and> length run \<le> 20
        \<and> (behind = [] \<or> \<not> upperOrDigit (hd behind)) \<longrightarrow>
      matchVinRegex (before @ run @ behind) = run # matchVinRegex behind)
   \<and> handleAnalyze_parse (js ''```json'' @ [0x0A] @ js ''[\"abcdefghij\",\"1G1FW1R77J4100000\"]'' @ [0x0A] @ js ''```'')
        = (Some [js ''abcdefghij'', js ''1G1FW1R77J4100000''], None)
   \<and> handleAnalyze_parse (js ''```'' @ [0x0A] @ js ''[\"abcdefghij\"]'' @ [0x0A] @ js ''```'')
        = (Some [js ''abcdefghij''], None)
   \<and> handleAnalyze_parse (js ''[\"abcdefghij\", 7, \"short\", \"1G1FW1R77J4100000\", \"abcdefghij\"]'')
        = (Some [js ''abcdefghij'', js ''1G1FW1R77J4100000''], None)
   \<and> handleAnalyze_parse ([0xA0] @ js ''[\"ABCDEFGHIJ\",\"abcdefghij\"]'')
        = (Some [js ''ABCDEFGHIJ'', js ''abcdefghij''], None)
   \<and> handleAnalyze_parse (js ''[\"ABCDEFGHIJKLMNOPQRSTUVWXYZ\"]'') = (Some [], Some NoPotentialVins)
   \<and> handleAnalyze_parse (js ''Found ABCDEFGHIJ1234 and 1G1FW1R77J4100000, then ABCDEFGHIJ1234 again.'')
        = (Some [js ''ABCDEFGHIJ1234'', js ''1G1FW1R77J4100000''], None)
   \<and> handleAnalyze_parse (js ''ABCDEFGHIJ0123456789KLMNOPQRST'')
        = (Some [js ''ABCDEFGHIJ0123456789'', js ''KLMNOPQRST''], None)
   \<and> handleAnalyze_parse (js ''no vin here'') = (None, Some CouldNotDetectVins)"
proof (intro conjI impI)
  assume "JSON_parse (trim (stripFences raw)) = Some (JArray vs)"
  then show "fst (handleAnalyze_parse raw) = Some (newSet (validVins vs))"
    by (simp add: handleAnalyze_parse_json)
next
  show "distinct (newSet (validVins vs))" by (rule distinct_newSet)
next
  show "set (newSet (validVins vs))
          = {s. JString s \<in> set vs \<and> 10 \<le> length s \<and> length s \<le> 20}"
    by (simp add: set_newSet set_validVins)
next
  assume "\<forall>vs. JSON_parse (trim (stripFences raw')) \<noteq> Some (JArray vs)"
  then show "fst (handleAnalyze_parse raw')
        = (if matchVinRegex raw' = [] then None else Some (newSet (matchVinRegex raw')))"
    by (simp add: handleAnalyze_parse_fallback)
next
  show "distinct (newSet (matchVinRegex raw'))" by (rule distinct_newSet)
next
  show "set (newSet (matchVinRegex raw')) = set (matchVinRegex raw')" by (rule set_newSet)
next
  show "\<forall>m \<in> set (matchVinRegex raw').
            10 \<le> length m \<and> length m \<le> 20 \<and> list_all upperOrDigit m
            \<and> (\<exists>pre post. raw' = pre @ m @ post)"
    using matchVinRegex_sound [of _ raw'] by blast
next
  assume a: "(\<forall>vs. JSON_parse (trim (stripFences (pre @ x @ post))) \<noteq> Some (JArray vs))
        \<and> list_all upperOrDigit x \<and> 10 \<le> length x \<and> length x \<le> 20
        \<and> matchVinRegex pre = [] \<and> (pre = [] \<or> \<not> upperOrDigit (last pre))
        \<and> matchVinRegex post = [] \<and> (post = [] \<or> \<not> upperOrDigit (hd post))"
  then have "matchVinRegex (pre @ x @ post) = [x]"
    by (intro matchVinRegex_isolated) simp_all
  with a show "handleAnalyze_parse (pre @ x @ post) = (Some [x], None)"
    by (simp add: handleAnalyze_parse_fallback newSet_def setInsert_def)
next
  show "handleAnalyze_parse (js ''[\"1G1FW1R77J4100000\",\"1G1FW1R77J4100000\"]'')
        = (Some [js ''1G1FW1R77J4100000''], None)"
    by (rule detected_example1)
next
  show "handleAnalyze_parse (js ''The VIN is ABCDEFGHIJ1234.'') = (Some [js ''ABCDEFGHIJ1234''], None)"
    by (rule detected_example2)
next
  assume "JSON_parse (trim (stripFences raw)) = Some (JArray vs)"
  then show "snd (handleAnalyze_parse raw)
        = (if newSet (validVins vs) = [] then Some NoPotentialVins else None)"
    by (simp add: handleAnalyze_parse_json)
next
  assume "\<forall>vs. JSON_parse (trim (stripFences raw')) \<noteq> Some (JArray vs)"
  then show "snd (handleAnalyze_parse raw')
        = (if matchVinRegex raw' = [] then Some CouldNotDetectVins else None)"
    by (simp add: handleAnalyze_parse_fallback)
next
  assume "0x60 \<notin> set body"
  then show "stripFences body = body" by (rule stripFences_plain)
next
  assume "0x60 \<notin> set body"
  then show "stripFences (fenceJson @ body @ fenceEnd) = body" by (rule stripFences_fenced)
next
  assume a: "0x60 \<notin> set body \<and> JSON_parse (trim body) = Some (JArray elems)"
  then have "stripFences (fenceJson @ body @ fenceEnd) = stripFences body"
    by (simp add: stripFences_plain stripFences_fenced)
  moreover from a have "JSON_parse (trim (stripFences body)) = Some (JArray elems)"
    by (simp add: stripFences_plain)
  ultimately show "handleAnalyze_parse (fenceJson @ body @ fenceEnd) = handleAnalyze_parse body"
    by (simp add: handleAnalyze_parse_json)
next
  assume a: "0x60 \<notin> set body \<and> JSON_parse (trim body) = Some (JArray elems)"
  then have "JSON_parse (trim (stripFences (fenceJson @ body @ fenceEnd))) = Some (JArray elems)"
    by (simp add: stripFences_fenced)
  then show "fst (handleAnalyze_parse (fenceJson @ body @ fenceEnd)) = Some (newSet (validVins elems))"
    by (simp add: handleAnalyze_parse_json)
next
  assume "matchVinRegex before = [] \<and> (before = [] \<or> \<not> upperOrDigit (last before))
        \<and> list_all upperOrDigit run \<and> 10 \<le> length run \<and> length run \<le> 20
        \<and> (behind = [] \<or> \<not> upperOrDigit (hd behind))"
  then show "matchVinRegex (before @ run @ behind) = run # matchVinRegex behind"
    by (intro matchVinRegex_chain) simp_all
next
  show "handleAnalyze_parse (js ''```json'' @ [0x0A] @ js ''[\"abcdefghij\",\"1G1FW1R77J4100000\"]'' @ [0x0A] @ js ''```'')
        = (Some [js ''abcdefghij'', js ''1G1FW1R77J4100000''], None)"
    by (rule detected_fenced)
next
  show "handleAnalyze_parse (js ''```'' @ [0x0A] @ js ''[\"abcdefghij\"]'' @ [0x0A] @ js ''```'')
        = (Some [js ''abcdefghij''], None)"
    by (rule detected_plain_fence)
next
  show "handleAnalyze_parse (js ''[\"abcdefghij\", 7, \"short\", \"1G1FW1R77J4100000\", \"abcdefghij\"]'')
        = (Some [js ''abcdefghij'', js ''1G1FW1R77J4100000''], None)"
    by (rule detected_mixed_array)
next
  show "handleAnalyze_parse ([0xA0] @ js ''[\"ABCDEFGHIJ\",\"abcdefghij\"]'')
        = (Some [js ''ABCDEFGHIJ'', js ''abcdefghij''], None)"
    by (rule detected_nbsp)
next
  show "handleAnalyze_parse (js ''[\"ABCDEFGHIJKLMNOPQRSTUVWXYZ\"]'') = (Some [], Some NoPotentialVins)"
    by (rule detected_nothing_valid)
next
  show "handleAnalyze_parse (js ''Found ABCDEFGHIJ1234 and 1G1FW1R77J4100000, then ABCDEFGHIJ1234 again.'')
        = (Some [js ''ABCDEFGHIJ1234'', js ''1G1FW1R77J4100000''], None)"
    by (rule detected_two_runs)
next
  show "handleAnalyze_parse (js ''ABCDEFGHIJ0123456789KLMNOPQRST'')
        = (Some [js ''ABCDEFGHIJ0123456789'', js ''KLMNOPQRST''], None)"
    by (rule detected_long_run)
next
  show "handleAnalyze_parse (js ''no vin here'') = (None, Some CouldNotDetectVins)"
    by (rule detected_none)
qed

lemma fenced_parse:
  "JSON_parse (trim (stripFences (js ''```json'' @ [0x0A] @ js ''[\"ABCDEFGHIJ1234\", 5, \"SHORT123\"]'' @ [0x0A] @ js ''```'')))
     = Some (JArray [JString (js ''ABCDEFGHIJ1234''), JNumber (js ''5''), JString (js ''SHORT123'')])"
  by code_simp

lemma fenced_valid:
  "newSet (validVins [JString (js ''ABCDEFGHIJ1234''), JNumber (js ''5''), JString (js ''SHORT123'')])
     = [js ''ABCDEFGHIJ1234'']"
  by code_simp

lemma object_parse:
  "JSON_parse (trim (stripFences (js ''{\"vins\": [\"ABCDEFGHIJ1234\"]}'')))
     = Some (JObject [(js ''vins'', JArray [JString (js ''ABCDEFGHIJ1234'')])])"
  by code_simp

lemma object_match:
  "matchVinRegex (js ''{\"vins\": [\"ABCDEFGHIJ1234\"]}'') = [js ''ABCDEFGHIJ1234'']"
  by code_simp

lemma prose_parse:
  "JSON_parse (trim (stripFences (js ''VIN: '' @ js ''1G1FW1R77J4100000'' @ js '' (blurred)''))) = None"
  by code_simp

lemma prose_sides:
  "matchVinRegex (js ''VIN: '') = [] \<and> matchVinRegex (js '' (blurred)'') = []
   \<and> \<not> upperOrDigit (last (js ''VIN: '')) \<and> \<not> upperOrDigit (hd (js '' (blurred)''))
   \<and> list_all upperOrDigit (js ''1G1FW1R77J4100000'') \<and> length (js ''1G1FW1R77J4100000'') = 17"
  by code_simp

lemma inside_plain:
  "0x60 \<notin> set (js ''[\"abcdefghij\",\"1G1FW1R77J4100000\"]'')"
  by code_simp

lemma inside_parse:
  "JSON_parse (trim (js ''[\"abcdefghij\",\"1G1FW1R77J4100000\"]''))
     = Some (JArray [JString (js ''abcdefghij''), JString (js ''1G1FW1R77J4100000'')])"
  by code_simp

lemma inside_valid:
  "newSet (validVins [JString (js ''abcdefghij''), JString (js ''1G1FW1R77J4100000'')])
     = [js ''abcdefghij'', js ''1G1FW1R77J4100000'']"
  by code_simp

lemma chain_sides:
  "matchVinRegex (js ''VINs '') = [] \<and> \<not> upperOrDigit (last (js ''VINs ''))
   \<and> list_all upperOrDigit (js ''ABCDEFGHIJ1234'') \<and> length (js ''ABCDEFGHIJ1234'') = 14
   \<and> \<not> upperOrDigit (hd (js '' and 1G1FW1R77J4100000''))
   \<and> matchVinRegex (js '' and 1G1FW1R77J4100000'') = [js ''1G1FW1R77J4100000'']"
  by code_simp

text \<open>
  The hypotheses at concrete texts: a fenced array, an object (no array), a sentence
  around a VIN, the inside of a fenced array, and a sentence with two VINs.
\<close>

theorem handleAnalyze_parse_two_stages_witness:
  "handleAnalyze_parse (js ''```json'' @ [0x0A] @ js ''[\"ABCDEFGHIJ1234\", 5, \"SHORT123\"]'' @ [0x0A] @ js ''```'')
     = (Some [js ''ABCDEFGHIJ1234''], None)
   \<and> handleAnalyze_parse (js ''{\"vins\": [\"ABCDEFGHIJ1234\"]}'') = (Some [js ''ABCDEFGHIJ1234''], None)
   \<and> handleAnalyze_parse (js ''VIN: '' @ js ''1G1FW1R77J4100000'' @ js '' (blurred)'')
       = (Some [js ''1G1FW1R77J4100000''], None)
   \<and> stripFences (fenceJson @ js ''[\"abcdefghij\",\"1G1FW1R77J4100000\"]'' @ fenceEnd)
       = js ''[\"abcdefghij\",\"1G1FW1R77J4100000\"]''
   \<and> fst (handleAnalyze_parse (fenceJson @ js ''[\"abcdefghij\",\"1G1FW1R77J4100000\"]'' @ fenceEnd))
       = Some [js ''abcdefghij'', js ''1G1FW1R77J4100000'']
   \<and> matchVinRegex (js ''VINs '' @ js ''ABCDEFGHIJ1234'' @ js '' and 1G1FW1R77J4100000'')
       = [js ''ABCDEFGHIJ1234'', js ''1G1FW1R77J4100000'']"
proof -
  note t = handleAnalyze_parse_two_stages
    [of "js ''```json'' @ [0x0A] @ js ''[\"ABCDEFGHIJ1234\", 5, \"SHORT123\"]'' @ [0x0A] @ js ''```''"
        "[JString (js ''ABCDEFGHIJ1234''), JNumber (js ''5''), JString (js ''SHORT123'')]"
        "js ''{\"vins\": [\"ABCDEFGHIJ1234\"]}''"
        "js ''VIN: ''" "js ''1G1FW1R77J4100000''" "js '' (blurred)''"
        "js ''[\"abcdefghij\",\"1G1FW1R77J4100000\"]''"
        "[JString (js ''abcdefghij''), JString (js ''1G1FW1R77J4100000'')]"
        "js ''VINs ''" "js ''ABCDEFGHIJ1234''" "js '' and 1G1FW1R77J4100000''"]
  note json = t [THEN conjunct1]
  note fallback = t [THEN conjunct2, THEN conjunct1]
  note alone = t [THEN conjunct2, THEN conjunct2, THEN conjunct1]
  note r = t [THEN conjunct2, THEN conjunct2, THEN conjunct2, THEN conjunct2, THEN conjunct2]
  note json_error = r [THEN conjunct1]
  note fallback_error = r [THEN conjunct2, THEN conjunct1]
  note fences = r [THEN conjunct2, THEN conjunct2, THEN conjunct1]
  note fenced = r [THEN conjunct2, THEN conjunct2, THEN conjunct2, THEN conjunct1]
  note chain = r [THEN conjunct2, THEN conjunct2, THEN conjunct2, THEN conjunct2, THEN conjunct1]
  have 1: "fst (handleAnalyze_parse (js ''```json'' @ [0x0A] @ js ''[\"ABCDEFGHIJ1234\", 5, \"SHORT123\"]'' @ [0x0A] @ js ''```''))
      = Some [js ''ABCDEFGHIJ1234'']"
    using json [THEN mp, OF fenced_parse, THEN conjunct1] by (simp only: fenced_valid)
  have 2: "snd (handleAnalyze_parse (js ''```json'' @ [0x0A] @ js ''[\"ABCDEFGHIJ1234\", 5, \"SHORT123\"]'' @ [0x0A] @ js ''```''))
      = None"
    using json_error [THEN mp, OF fenced_parse] by (simp only: fenced_valid list.simps if_False)
  have o: "\<forall>vs. JSON_parse (trim (stripFences (js ''{\"vins\": [\"ABCDEFGHIJ1234\"]}''))) \<noteq> Some (JArray vs)"
    by (simp only: object_parse) simp
  have n: "newSet [js ''ABCDEFGHIJ1234''] = [js ''ABCDEFGHIJ1234'']"
    by (simp add: newSet_def setInsert_def)
  have 3: "fst (handleAnalyze_parse (js ''{\"vins\": [\"ABCDEFGHIJ1234\"]}'')) = Some [js ''ABCDEFGHIJ1234'']"
    using fallback [THEN mp, OF o, THEN conjunct1] by (simp only: object_match n list.simps if_False)
  have 4: "snd (handleAnalyze_parse (js ''{\"vins\": [\"ABCDEFGHIJ1234\"]}'')) = None"
    using fallback_error [THEN mp, OF o] by (simp only: object_match list.simps if_False)
  have p: "\<forall>vs. JSON_parse (trim (stripFences (js ''VIN: '' @ js ''1G1FW1R77J4100000'' @ js '' (blurred)''))) \<noteq> Some (JArray vs)"
    by (simp only: prose_parse) simp
  have l: "10 \<le> length (js ''1G1FW1R77J4100000'') \<and> length (js ''1G1FW1R77J4100000'') \<le> 20"
    using prose_sides by simp
  have 5: "handleAnalyze_parse (js ''VIN: '' @ js ''1G1FW1R77J4100000'' @ js '' (blurred)'')
       = (Some [js ''1G1FW1R77J4100000''], None)"
    using p l prose_sides by (intro alone [THEN mp]) blast
  note f = fences [THEN mp, OF inside_plain]
  have 6: "stripFences (fenceJson @ js ''[\"abcdefghij\",\"1G1FW1R77J4100000\"]'' @ fenceEnd)
       = js ''[\"abcdefghij\",\"1G1FW1R77J4100000\"]''"
    by (rule f [THEN conjunct2])
  have 7: "fst (handleAnalyze_parse (fenceJson @ js ''[\"abcdefghij\",\"1G1FW1R77J4100000\"]'' @ fenceEnd))
       = Some [js ''abcdefghij'', js ''1G1FW1R77J4100000'']"
    using fenced [THEN mp, OF conjI, OF inside_plain inside_parse, THEN conjunct2]
    by (simp only: inside_valid)
  have m: "10 \<le> length (js ''ABCDEFGHIJ1234'') \<and> length (js ''ABCDEFGHIJ1234'') \<le> 20"
    using chain_sides by simp
  have "matchVinRegex (js ''VINs '' @ js ''ABCDEFGHIJ1234'' @ js '' and 1G1FW1R77J4100000'')
       = js ''ABCDEFGHIJ1234'' # matchVinRegex (js '' and 1G1FW1R77J4100000'')"
    using m chain_sides by (intro chain [THEN mp]) blast
  then have 8: "matchVinRegex (js ''VINs '' @ js ''ABCDEFGHIJ1234'' @ js '' and 1G1FW1R77J4100000'')
       = [js ''ABCDEFGHIJ1234'', js ''1G1FW1R77J4100000'']"
    using chain_sides by simp
  from 1 2 have 12: "handleAnalyze_parse (js ''```json'' @ [0x0A] @ js ''[\"ABCDEFGHIJ1234\", 5, \"SHORT123\"]'' @ [0x0A] @ js ''```'')
     = (Some [js ''ABCDEFGHIJ1234''], None)"
    by (simp only: prod_eq_iff fst_conv snd_conv)
  from 3 4 have 34: "handleAnalyze_parse (js ''{\"vins\": [\"ABCDEFGHIJ1234\"]}'') = (Some [js ''ABCDEFGHIJ1234''], None)"
    by (simp only: prod_eq_iff fst_conv snd_conv)
  from 12 34 5 6 7 8 show ?thesis by (intro conjI)
qed

section \<open>Rounding to the nearest number\<close>

text \<open>
  The nearest integer is within one half, is the same for an integer, and is monotone.
\<close>

lemma rne_floor: "\<lfloor>q\<rfloor> \<le> rne q \<and> rne q \<le> \<lfloor>q\<rfloor> + 1"
  by (simp add: rne_def Let_def)

lemma rne_error: "\<bar>of_int (rne q) - q\<bar> \<le> 1 / 2"
proof -
  have "of_int \<lfloor>q\<rfloor> \<le> q" "q < of_int \<lfloor>q\<rfloor> + 1" by linarith+
  then show ?thesis by (auto simp add: rne_def Let_def abs_le_iff)
qed

lemma rne_of_int: "rne (of_int n) = n"
  by (simp add: rne_def)

lemma rne_mono: "a \<le> b \<Longrightarrow> rne a \<le> rne b"
proof -
  assume ab: "a \<le> b"
  then have "\<lfloor>a\<rfloor> \<le> \<lfloor>b\<rfloor>" by (rule floor_mono)
  then consider "\<lfloor>a\<rfloor> = \<lfloor>b\<rfloor>" | "\<lfloor>a\<rfloor> + 1 \<le> \<lfloor>b\<rfloor>" by linarith
  then show ?thesis
  proof cases
    case 1
    with ab show ?thesis by (auto simp add: rne_def Let_def)
  next
    case 2
    with rne_floor [of a] rne_floor [of b] show ?thesis by linarith
  qed
qed

text \<open>
  The exponent: \<open>2^(expo x) \<le> |x| < 2^(expo x + 1)\<close>, and it is the only such integer.
\<close>

lemma powi_pos: "0 < (2::rat) powi k"
  by simp

lemma powi_of_bitlen:
  assumes "0 < p"
  shows "2 powi (bitlen p - 1) \<le> (of_int p :: rat) \<and> (of_int p :: rat) < 2 powi bitlen p"
proof -
  from assms have b: "1 \<le> bitlen p"
    using bitlen_eq_zero_iff [of p] bitlen_nonneg [of p] by linarith
  from bitlen_bounds [OF assms]
  have "(of_int (2 ^ nat (bitlen p - 1)) :: rat) \<le> of_int p" "(of_int p :: rat) < of_int (2 ^ nat (bitlen p))"
    by (simp_all only: of_int_le_iff of_int_less_iff)
  with b show ?thesis by (simp add: power_int_def)
qed

lemma expo_bounds:
  assumes "x \<noteq> 0"
  shows "2 powi expo x \<le> \<bar>x\<bar> \<and> \<bar>x\<bar> < 2 powi (expo x + 1)"
proof -
  obtain p q where pq: "quotient_of \<bar>x\<bar> = (p, q)" by (cases "quotient_of \<bar>x\<bar>")
  then have q: "0 < q" and x: "\<bar>x\<bar> = of_int p / of_int q"
    by (simp_all add: quotient_of_denom_pos quotient_of_div)
  from assms have "0 < \<bar>x\<bar>" by simp
  with x q have p: "0 < p" by (simp add: zero_less_divide_iff)
  define k where "k = bitlen p - bitlen q"
  note P = powi_of_bitlen [OF p] and Q = powi_of_bitlen [OF q]
  have "of_int p / of_int q < (2::rat) powi bitlen p / 2 powi (bitlen q - 1)"
    using P Q p q by (intro frac_less) simp_all
  moreover have "(2::rat) powi (bitlen p - (bitlen q - 1)) = 2 powi bitlen p / 2 powi (bitlen q - 1)"
    by (rule power_int_diff) simp
  moreover have "bitlen p - (bitlen q - 1) = k + 1" by (simp add: k_def)
  ultimately have up: "\<bar>x\<bar> < 2 powi (k + 1)"
    by (simp only: x)
  have "(2::rat) powi (bitlen p - 1) / 2 powi bitlen q < of_int p / of_int q"
    using P Q p q by (intro frac_less2) simp_all
  moreover have "(2::rat) powi (bitlen p - 1 - bitlen q) = 2 powi (bitlen p - 1) / 2 powi bitlen q"
    by (rule power_int_diff) simp
  moreover have "bitlen p - 1 - bitlen q = k - 1" by (simp add: k_def)
  ultimately have lo: "2 powi (k - 1) \<le> \<bar>x\<bar>"
    by (simp only: x)
  have e: "expo x = (if 2 powi k \<le> \<bar>x\<bar> then k else k - 1)"
    by (simp add: expo_def pq k_def)
  show ?thesis using up lo by (simp add: e)
qed

lemma expo_unique:
  assumes "2 powi e \<le> \<bar>x\<bar>" "\<bar>x\<bar> < 2 powi (e + 1)"
  shows "expo x = e"
proof -
  from assms have "x \<noteq> 0" by (metis abs_zero not_le powi_pos)
  note b = expo_bounds [OF this]
  have "\<not> expo x + 1 \<le> e"
  proof
    assume "expo x + 1 \<le> e"
    then have "(2::rat) powi (expo x + 1) \<le> 2 powi e" by (intro power_int_increasing) simp_all
    with b assms show False by linarith
  qed
  moreover have "\<not> e + 1 \<le> expo x"
  proof
    assume "e + 1 \<le> expo x"
    then have "(2::rat) powi (e + 1) \<le> 2 powi expo x" by (intro power_int_increasing) simp_all
    with b assms show False by linarith
  qed
  ultimately show ?thesis by linarith
qed

lemma expo_mono:
  assumes "0 < a" "a \<le> b"
  shows "expo a \<le> expo b"
proof (rule ccontr)
  assume "\<not> expo a \<le> expo b"
  then have "expo b + 1 \<le> expo a" by simp
  then have "(2::rat) powi (expo b + 1) \<le> 2 powi expo a" by (intro power_int_increasing) simp_all
  with expo_bounds [of a] expo_bounds [of b] assms show False by simp
qed

text \<open>
  Rounding keeps the sign, moves a value by at most half a unit in the last place (for
  a value from \<open>2^-1022\<close> on that is at most the \<open>2^-53\<close>-th part of it), commutes
  with the change of sign, and is monotone. A number from \<open>2^-1019\<close> on is divided by 8
  without rounding.
\<close>

lemma ulp_pos: "0 < ulp x"
  by (simp add: ulp_def)

lemma binary64_nonneg: "0 \<le> x \<Longrightarrow> 0 \<le> binary64 x"
proof -
  assume "0 \<le> x"
  then have "0 \<le> x / ulp x" using ulp_pos [of x] by simp
  then have "rne 0 \<le> rne (x / ulp x)" by (rule rne_mono)
  then have "0 \<le> rne (x / ulp x)" by (simp add: rne_def)
  then show ?thesis using ulp_pos [of x] by (simp add: binary64_def)
qed

lemma binary64_nonpos: "x \<le> 0 \<Longrightarrow> binary64 x \<le> 0"
proof -
  assume "x \<le> 0"
  then have "x / ulp x \<le> 0" using ulp_pos [of x] by (simp add: divide_le_0_iff)
  then have "rne (x / ulp x) \<le> rne 0" by (rule rne_mono)
  then have "rne (x / ulp x) \<le> 0" by (simp add: rne_def)
  then show ?thesis using ulp_pos [of x] by (simp add: binary64_def mult_le_0_iff)
qed

lemma binary64_ulp_error: "\<bar>binary64 x - x\<bar> \<le> ulp x / 2"
proof (cases "x = 0")
  case True
  then show ?thesis using ulp_pos [of 0] by (simp add: binary64_def)
next
  case False
  have u: "0 < ulp x" by (rule ulp_pos)
  have "binary64 x - x = (of_int (rne (x / ulp x)) - x / ulp x) * ulp x"
    using False u by (simp add: binary64_def field_simps)
  then have "\<bar>binary64 x - x\<bar> = \<bar>of_int (rne (x / ulp x)) - x / ulp x\<bar> * ulp x"
    using u by (simp add: abs_mult)
  also have "\<dots> \<le> 1 / 2 * ulp x"
    using rne_error [of "x / ulp x"] u by (intro mult_right_mono) simp_all
  finally show ?thesis by simp
qed

lemma ulp_normal:
  assumes "2 powi (- 1022) \<le> \<bar>x\<bar>"
  shows "ulp x = 2 powi (expo x - 52)" "ulp x \<le> \<bar>x\<bar> / 2 ^ 52"
proof -
  from assms have nz: "x \<noteq> 0" by (metis abs_zero not_le powi_pos)
  have "- 1022 \<le> expo x"
  proof (rule ccontr)
    assume "\<not> - 1022 \<le> expo x"
    then have "expo x + 1 \<le> - 1022" by simp
    then have "(2::rat) powi (expo x + 1) \<le> 2 powi (- 1022)" by (intro power_int_increasing) simp_all
    with expo_bounds [OF nz] assms show False by linarith
  qed
  then show u: "ulp x = 2 powi (expo x - 52)" by (simp add: ulp_def max_def)
  have "ulp x = 2 powi expo x / 2 ^ 52" by (simp add: u power_int_diff)
  also have "\<dots> \<le> \<bar>x\<bar> / 2 ^ 52" using expo_bounds [OF nz] by (intro divide_right_mono) simp_all
  finally show "ulp x \<le> \<bar>x\<bar> / 2 ^ 52" .
qed

lemma binary64_error:
  assumes "2 powi (- 1022) \<le> \<bar>x\<bar>"
  shows "\<bar>binary64 x - x\<bar> \<le> \<bar>x\<bar> / 2 ^ 53"
proof -
  have "\<bar>binary64 x - x\<bar> \<le> ulp x / 2" by (rule binary64_ulp_error)
  also have "\<dots> \<le> (\<bar>x\<bar> / 2 ^ 52) / 2" using ulp_normal(2) [OF assms] by simp
  finally show ?thesis by simp
qed

lemma powi_int: "0 \<le> k \<Longrightarrow> (2::rat) powi k = of_int (2 ^ nat k)"
  by (simp add: power_int_def)

lemma binary64_le_multiple: "x \<le> of_int n * ulp x \<Longrightarrow> binary64 x \<le> of_int n * ulp x"
proof -
  assume "x \<le> of_int n * ulp x"
  then have "x / ulp x \<le> of_int n" using ulp_pos [of x] by (simp add: pos_divide_le_eq)
  then have "rne (x / ulp x) \<le> rne (of_int n)" by (rule rne_mono)
  then have "(of_int (rne (x / ulp x)) :: rat) \<le> of_int n" by (simp add: rne_of_int)
  then have "of_int (rne (x / ulp x)) * ulp x \<le> of_int n * ulp x"
    using ulp_pos [of x] by (intro mult_right_mono) simp_all
  moreover have "0 \<le> of_int n * ulp x" if "x = 0"
    using that \<open>x \<le> of_int n * ulp x\<close> by simp
  ultimately show ?thesis by (simp add: binary64_def)
qed

lemma binary64_ge_multiple: "of_int n * ulp x \<le> x \<Longrightarrow> of_int n * ulp x \<le> binary64 x"
proof -
  assume "of_int n * ulp x \<le> x"
  then have "of_int n \<le> x / ulp x" using ulp_pos [of x] by (simp add: pos_le_divide_eq)
  then have "rne (of_int n) \<le> rne (x / ulp x)" by (rule rne_mono)
  then have "(of_int n :: rat) \<le> of_int (rne (x / ulp x))" by (simp add: rne_of_int)
  then have "of_int n * ulp x \<le> of_int (rne (x / ulp x)) * ulp x"
    using ulp_pos [of x] by (intro mult_right_mono) simp_all
  moreover have "of_int n * ulp x \<le> 0" if "x = 0"
    using that \<open>of_int n * ulp x \<le> x\<close> by simp
  ultimately show ?thesis by (simp add: binary64_def)
qed

lemma binary64_mono_nonneg:
  assumes "0 \<le> a" "a \<le> b"
  shows "binary64 a \<le> binary64 b"
proof (cases "a = 0")
  case True
  with assms show ?thesis using binary64_nonneg [of b] by (simp add: binary64_def)
next
  case False
  with assms have a: "0 < a" and b: "0 < b" by simp_all
  define ea where "ea = max (expo a) (- 1022)"
  define eb where "eb = max (expo b) (- 1022)"
  have ua: "ulp a = 2 powi (ea - 52)" and ub: "ulp b = 2 powi (eb - 52)"
    by (simp_all add: ulp_def ea_def eb_def)
  have "ea \<le> eb" using expo_mono [OF a assms(2)] by (simp add: ea_def eb_def)
  then consider "ea = eb" | "ea < eb" by linarith
  then show ?thesis
  proof cases
    case 1
    then have u: "ulp a = ulp b" by (simp add: ua ub)
    have "a / ulp b \<le> b / ulp b" using assms ulp_pos [of b] by (intro divide_right_mono) simp_all
    then have "rne (a / ulp b) \<le> rne (b / ulp b)" by (rule rne_mono)
    then have "(of_int (rne (a / ulp b)) :: rat) * ulp b \<le> of_int (rne (b / ulp b)) * ulp b"
      using ulp_pos [of b] by (intro mult_right_mono) simp_all
    with a b show ?thesis by (simp add: binary64_def u)
  next
    case 2
    then have eb: "eb = expo b" "expo a < expo b" by (simp_all add: ea_def eb_def max_def split: if_splits)
    define T :: rat where "T = 2 powi expo b"
    have "a < 2 powi (expo a + 1)" using expo_bounds [of a] a by simp
    also have "\<dots> \<le> T" unfolding T_def using eb by (intro power_int_increasing) simp_all
    finally have aT: "a \<le> T" by simp
    have Tb: "T \<le> b" using expo_bounds [of b] b by (simp add: T_def)
    have "T = 2 powi (expo b - (ea - 52)) * 2 powi (ea - 52)"
      by (simp add: T_def power_int_add [symmetric])
    moreover have "0 \<le> expo b - (ea - 52)" using 2 eb by simp
    ultimately have Ta: "T = of_int (2 ^ nat (expo b - (ea - 52))) * ulp a"
      by (simp only: ua powi_int)
    have "(2::rat) powi (52 + (expo b - 52)) = 2 powi 52 * 2 powi (expo b - 52)"
      by (rule power_int_add) simp
    then have Tb': "T = of_int (2 ^ 52) * ulp b"
      by (simp add: T_def ub eb)
    have "binary64 a \<le> T" using binary64_le_multiple [of a "2 ^ nat (expo b - (ea - 52))"] aT Ta by simp
    moreover have "T \<le> binary64 b" using binary64_ge_multiple [of "2 ^ 52" b] Tb Tb' by simp
    ultimately show ?thesis by simp
  qed
qed

lemma rne_minus: "rne (- q) = - rne q"
proof (cases "q = of_int \<lfloor>q\<rfloor>")
  case True
  then have "rne q = \<lfloor>q\<rfloor>" by (metis rne_of_int)
  moreover from True have "- q = of_int (- \<lfloor>q\<rfloor>)" by simp
  then have "rne (- q) = - \<lfloor>q\<rfloor>" by (metis rne_of_int)
  ultimately show ?thesis by simp
next
  case False
  have "q < of_int \<lfloor>q\<rfloor> + 1" by linarith
  from False have "of_int \<lfloor>q\<rfloor> < q" by (auto simp: less_le)
  then have f: "\<lfloor>- q\<rfloor> = - \<lfloor>q\<rfloor> - 1"
    using \<open>q < of_int \<lfloor>q\<rfloor> + 1\<close> by (intro floor_unique) simp_all
  show ?thesis
    using \<open>of_int \<lfloor>q\<rfloor> < q\<close> \<open>q < of_int \<lfloor>q\<rfloor> + 1\<close>
    by (simp add: rne_def [of "- q"] rne_def [of q] Let_def f)
qed

lemma expo_minus: "expo (- x) = expo x"
  by (simp add: expo_def)

lemma ulp_minus: "ulp (- x) = ulp x"
  by (simp add: ulp_def expo_minus)

lemma binary64_minus: "binary64 (- x) = - binary64 x"
  by (simp add: binary64_def ulp_minus rne_minus)

lemma binary64_mono:
  assumes "a \<le> b"
  shows "binary64 a \<le> binary64 b"
proof -
  consider "0 \<le> a" | "a < 0" "0 \<le> b" | "b < 0" by linarith
  then show ?thesis
  proof cases
    case 1
    with assms show ?thesis by (intro binary64_mono_nonneg)
  next
    case 2
    then have "binary64 a \<le> 0" "0 \<le> binary64 b"
      by (simp_all add: binary64_nonpos binary64_nonneg)
    then show ?thesis by simp
  next
    case 3
    with assms have "binary64 (- b) \<le> binary64 (- a)" by (intro binary64_mono_nonneg) simp_all
    then show ?thesis by (simp add: binary64_minus)
  qed
qed

lemma binary64_eighth:
  assumes "binary64 d = d" "2 powi (- 1019) \<le> \<bar>d\<bar>"
  shows "binary64 (d / 8) = d / 8"
proof -
  have "(2::rat) powi (- 1022) \<le> 2 powi (- 1019)" by (intro power_int_increasing) simp_all
  with assms have n: "2 powi (- 1022) \<le> \<bar>d\<bar>" by simp
  then have nz: "d \<noteq> 0" by (metis abs_zero not_le powi_pos)
  have lo: "- 1019 \<le> expo d"
  proof (rule ccontr)
    assume "\<not> - 1019 \<le> expo d"
    then have "expo d + 1 \<le> - 1019" by simp
    then have "(2::rat) powi (expo d + 1) \<le> 2 powi (- 1019)" by (intro power_int_increasing) simp_all
    with expo_bounds [OF nz] assms show False by linarith
  qed
  have p: "(2::rat) powi (expo d - 3) = 2 powi expo d / 8" "(2::rat) powi (expo d - 3 + 1) = 2 powi (expo d + 1) / 8"
    by (simp_all add: power_int_diff power_int_add)
  have "expo (d / 8) = expo d - 3"
    using expo_bounds [OF nz] by (intro expo_unique) (simp_all only: p, simp_all)
  moreover have "max (expo d - 3) (- 1022) = expo d - 3" "max (expo d) (- 1022) = expo d"
    using lo by simp_all
  moreover have "(2::rat) powi (expo d - 52 - 3) = 2 powi (expo d - 52) / 2 powi 3"
    by (rule power_int_diff) simp
  moreover have "expo d - 3 - 52 = expo d - 52 - 3" by simp
  ultimately have u8: "ulp (d / 8) = ulp d / 8"
    by (simp add: ulp_def)
  have "d / ulp d = of_int (rne (d / ulp d))"
    using assms(1) nz ulp_pos [of d] by (simp add: binary64_def field_simps)
  then have "rne (d / ulp d) = rne (of_int (rne (d / ulp d)))" by simp
  then have "of_int (rne (d / ulp d)) * ulp d / 8 = d / 8"
    using assms(1) nz by (simp add: binary64_def)
  then show ?thesis using nz by (simp add: binary64_def u8)
qed

section \<open>The times of the sampled frames\<close>

lemma upt_8: "[0..<8] = [0, 1, 2, 3, 4, 5, 6, 7]"
  by (simp add: upt_rec)

lemma binary64_0: "binary64 0 = 0"
  by (simp add: binary64_def)

lemma binary64_tenth: "binary64 (1 / 10) = 3602879701896397 / 36028797018963968"
  by code_simp

lemma binary64_four_fifths: "binary64 (4 / 5) = 3602879701896397 / 4503599627370496"
  by code_simp

lemma normal_small: "(2::rat) powi (- 1022) \<le> 2 powi (- 1019)" "(2::rat) powi (- 1019) \<le> 1 / 1024"
proof -
  show "(2::rat) powi (- 1022) \<le> 2 powi (- 1019)" by (intro power_int_increasing) simp_all
  have "(2::rat) powi (- 1019) \<le> 2 powi (- 10)" by (intro power_int_increasing) simp_all
  also have "(2::rat) powi (- 10) = 1 / 1024" by (simp add: power_int_minus_divide)
  finally show "(2::rat) powi (- 1019) \<le> 1 / 1024" .
qed

lemma frameTimes_Seconds:
  "d \<noteq> 0 \<Longrightarrow> frameTimes (Seconds d) =
     Some (map (\<lambda>i. min (binary64 (of_nat i * binary64 (d / 8))) (binary64 (d - binary64 (1 / 10)))) [0..<8])"
  by (simp add: frameTimes_def finalDuration_def frameTime_def FRAME_COUNT_def)

lemma binary64_upper:
  assumes "2 powi (- 1022) \<le> x"
  shows "binary64 x \<le> x + x / 9007199254740992" "x - x / 9007199254740992 \<le> binary64 x"
proof -
  from assms have "0 < x" using powi_pos [of "- 1022"] by linarith
  moreover have "\<bar>binary64 x - x\<bar> \<le> \<bar>x\<bar> / 9007199254740992" using binary64_error [of x] assms by simp
  ultimately show "binary64 x \<le> x + x / 9007199254740992" "x - x / 9007199254740992 \<le> binary64 x"
    by linarith+
qed

lemma step_increasing:
  assumes "2 powi (- 1022) \<le> x" "i \<le> 6"
  shows "binary64 (of_nat i * x) < binary64 (of_nat (Suc i) * x)"
proof -
  from assms have x: "0 < x" using powi_pos [of "- 1022"] by linarith
  define y where "y = of_nat i * x"
  have "of_nat i * x \<le> of_nat 6 * x" using x assms(2) by (intro mult_right_mono) simp_all
  then have y: "0 \<le> y" "y \<le> 6 * x" using x by (simp_all add: y_def)
  have s: "of_nat (Suc i) * x = y + x" by (simp add: y_def algebra_simps)
  have "2 powi (- 1022) \<le> y + x" using assms y by simp
  then have b: "y + x - (y + x) / 9007199254740992 \<le> binary64 (y + x)"
    by (rule binary64_upper(2))
  have "binary64 y < binary64 (y + x)"
  proof (cases "i = 0")
    case True
    then have "binary64 y = 0" by (simp add: y_def binary64_def)
    moreover from True have "y = 0" by (simp add: y_def)
    ultimately show ?thesis using b x by simp
  next
    case False
    then have "of_nat 1 * x \<le> of_nat i * x" using x by (intro mult_right_mono) simp_all
    then have "x \<le> y" by (simp add: y_def)
    with assms(1) have "2 powi (- 1022) \<le> y" by linarith
    note binary64_upper(1) [OF this]
    moreover have "y + y / 9007199254740992 < y + x - (y + x) / 9007199254740992"
      using x y by (simp add: field_simps)
    ultimately show ?thesis using b by linarith
  qed
  then show ?thesis by (simp only: s y_def [symmetric])
qed

lemma below_duration:
  assumes "binary64 d = d" "binary64 (1 / 10) \<le> d" "i \<le> 7"
  shows "binary64 (of_nat i * binary64 (d / 8)) < d"
proof -
  from assms(2) have d: "1 / 16 \<le> d" by (simp add: binary64_tenth)
  then have n: "2 powi (- 1019) \<le> \<bar>d\<bar>" using normal_small by linarith
  have e: "binary64 (d / 8) = d / 8" using assms(1) n by (rule binary64_eighth)
  have "of_nat i * (d / 8) \<le> of_nat 7 * (d / 8)" using d assms(3) by (intro mult_right_mono) simp_all
  then have "binary64 (of_nat i * (d / 8)) \<le> binary64 (of_nat 7 * (d / 8))" using d by (intro binary64_mono_nonneg) simp_all
  moreover have "2 powi (- 1022) \<le> 7 * (d / 8)" using normal_small d by linarith
  note binary64_upper(1) [OF this]
  ultimately show ?thesis using d by (simp add: e)
qed

lemma uncapped:
  assumes "binary64 d = d" "4 / 5 \<le> d" "i \<le> 7"
  shows "min (binary64 (of_nat i * binary64 (d / 8))) (binary64 (d - binary64 (1 / 10))) = binary64 (of_nat i * (d / 8))"
proof -
  have "binary64 (4 / 5) \<le> binary64 d" using assms(2) by (intro binary64_mono_nonneg) simp_all
  then have d: "3602879701896397 / 4503599627370496 \<le> d" by (simp add: binary64_four_fifths assms(1))
  then have n: "2 powi (- 1019) \<le> \<bar>d\<bar>" using normal_small by linarith
  have e: "binary64 (d / 8) = d / 8" using assms(1) n by (rule binary64_eighth)
  have "of_nat i * (d / 8) \<le> of_nat 7 * (d / 8)" using d assms(3) by (intro mult_right_mono) simp_all
  also have "\<dots> \<le> d - binary64 (1 / 10)" using d by (simp add: binary64_tenth)
  finally have "binary64 (of_nat i * (d / 8)) \<le> binary64 (d - binary64 (1 / 10))" using d by (intro binary64_mono_nonneg) simp_all
  then show ?thesis by (simp add: e)
qed

lemma bounded_strict_mono:
  fixes f :: "nat \<Rightarrow> rat"
  assumes "\<And>i. i < n \<Longrightarrow> f i < f (Suc i)"
  shows "i < j \<Longrightarrow> j \<le> n \<Longrightarrow> f i < f j"
proof (induction j)
  case 0
  then show ?case by simp
next
  case (Suc j)
  show ?case
  proof (cases "i = j")
    case True
    with Suc.prems assms [of j] show ?thesis by simp
  next
    case False
    with Suc have "f i < f j" by simp
    also have "f j < f (Suc j)" using Suc.prems by (intro assms) simp
    finally show ?thesis .
  qed
qed

lemma capped_sorted:
  assumes "0 \<le> x"
  shows "sorted (map (\<lambda>i. min (binary64 (of_nat i * x)) b) [0..<n])"
proof -
  define g where "g i = min (binary64 (of_nat i * x)) b" for i :: nat
  have "mono g"
    unfolding g_def
    by (rule monoI, rule min.mono, rule binary64_mono_nonneg) (use assms in \<open>simp_all add: mult_right_mono\<close>)
  then have "sorted (map g [0..<n])" by (simp add: sorted_iff_nth_mono monoD)
  then show ?thesis by (simp only: g_def [abs_def])
qed

lemma uncapped_increasing:
  assumes "2 powi (- 1022) \<le> x"
  shows "sorted_wrt (<) (map (\<lambda>i. binary64 (of_nat i * x)) [0..<8])"
proof -
  define f where "f i = binary64 (of_nat i * x)" for i :: nat
  have s: "f i < f (Suc i)" if "i < 7" for i
  proof -
    from that have "i \<le> 6" by simp
    with assms show ?thesis unfolding f_def by (rule step_increasing)
  qed
  have "f i < f j" if "i < j" "j < 8" for i j
  proof -
    from that have "j \<le> 7" by simp
    with s that(1) show ?thesis by (rule bounded_strict_mono [where n = 7])
  qed
  then have "sorted_wrt (<) (map f [0..<8])" by (simp add: sorted_wrt_iff_nth_less)
  then show ?thesis by (simp only: f_def [abs_def])
qed

lemma binary64_1: "binary64 1 = 1"
  by code_simp

lemma tenth_twice: "binary64 (binary64 (1 / 10)) = binary64 (1 / 10)"
  by code_simp

text \<open>
  No operation of the sampler overflows: for a duration \<open>d > 0\<close> the interval lies
  between 0 and \<open>d\<close>, the products between 0 and the larger of \<open>d\<close> and 1, and the cap
  between \<open>-0.1\<close> and \<open>d\<close>.
\<close>

lemma extractFrames_in_range:
  assumes "isDouble d" "0 < d" "i < 8"
  shows "0 \<le> binary64 (d / 8) \<and> binary64 (d / 8) \<le> d"
    and "0 \<le> binary64 (of_nat i * binary64 (d / 8))
         \<and> binary64 (of_nat i * binary64 (d / 8)) \<le> max d 1"
    and "- binary64 (1 / 10) \<le> binary64 (d - binary64 (1 / 10))
         \<and> binary64 (d - binary64 (1 / 10)) \<le> d"
proof -
  from assms(1) have fd: "binary64 d = d" by (simp add: isDouble_def)
  have "binary64 (d / 8) \<le> binary64 d" using assms(2) by (intro binary64_mono) simp
  then show a: "0 \<le> binary64 (d / 8) \<and> binary64 (d / 8) \<le> d"
    using assms(2) by (simp add: fd binary64_nonneg)
  have i: "(of_nat i :: rat) \<le> 7" using assms(3) by simp
  have "binary64 (of_nat i * binary64 (d / 8)) \<le> max d 1"
  proof (cases "2 powi (- 1019) \<le> d")
    case True
    with assms(2) have "2 powi (- 1019) \<le> \<bar>d\<bar>" by simp
    with fd have e: "binary64 (d / 8) = d / 8" by (rule binary64_eighth)
    have "of_nat i * (d / 8) \<le> 7 * (d / 8)" using i assms(2) by (intro mult_right_mono) simp_all
    then have "of_nat i * (d / 8) \<le> d" using assms(2) by simp
    then have "binary64 (of_nat i * (d / 8)) \<le> binary64 d" by (rule binary64_mono)
    then show ?thesis by (simp add: e fd)
  next
    case False
    then have "d \<le> 1 / 1024" using normal_small(2) by linarith
    moreover have "of_nat i * binary64 (d / 8) \<le> 7 * binary64 (d / 8)"
      using i a by (intro mult_right_mono) simp_all
    ultimately have "of_nat i * binary64 (d / 8) \<le> 1" using a by linarith
    then have "binary64 (of_nat i * binary64 (d / 8)) \<le> binary64 1" by (rule binary64_mono)
    then show ?thesis by (simp add: binary64_1)
  qed
  moreover have "0 \<le> binary64 (of_nat i * binary64 (d / 8))"
    using a by (intro binary64_nonneg) simp
  ultimately show "0 \<le> binary64 (of_nat i * binary64 (d / 8))
         \<and> binary64 (of_nat i * binary64 (d / 8)) \<le> max d 1" by simp
  have "0 \<le> binary64 (1 / 10)" by (intro binary64_nonneg) simp
  then have "binary64 (d - binary64 (1 / 10)) \<le> binary64 d" by (intro binary64_mono) simp
  moreover have "binary64 (- binary64 (1 / 10)) \<le> binary64 (d - binary64 (1 / 10))"
    using assms(2) by (intro binary64_mono) simp
  ultimately show "- binary64 (1 / 10) \<le> binary64 (d - binary64 (1 / 10))
         \<and> binary64 (d - binary64 (1 / 10)) \<le> d"
    by (simp add: binary64_minus tenth_twice fd)
qed

lemma frameTimes_8: "frameTimes (Seconds 8) = Some [0, 1, 2, 3, 4, 5, 6, 7]"
  by code_simp

text \<open>
  C5. For a video whose duration is a number \<open>d > 0\<close> the sampler computes 8 times, the
  \<open>i\<close>-th being the smaller of \<open>i * (d / 8)\<close> and \<open>d - 0.1\<close>, each operation rounded
  to the nearest number; they never decrease, each is strictly before \<open>d\<close>, the first
  lies between \<open>-0.1\<close> and 0, and it is 0 when \<open>d\<close> is at least the number \<open>0.1\<close>.
  From a duration of 0.8 on the cap is not reached: the \<open>i\<close>-th time is the number
  nearest to \<open>i * d / 8\<close>, and the times are strictly increasing. For duration 8 they
  are \<open>0, 1, ..., 7\<close>: strictly increasing, the last below 8.
\<close>

theorem frameTimes_spacing:
  "(isDouble d \<and> 0 < d \<longrightarrow>
      (\<exists>ts. frameTimes (Seconds d) = Some ts \<and> length ts = 8
         \<and> (\<forall>i < 8. ts ! i = min (binary64 (of_nat i * binary64 (d / 8))) (binary64 (d - binary64 (1 / 10))))
         \<and> sorted ts \<and> (\<forall>t \<in> set ts. t < d)
         \<and> - binary64 (1 / 10) \<le> hd ts \<and> hd ts \<le> 0
         \<and> (binary64 (1 / 10) \<le> d \<longrightarrow> hd ts = 0)))
   \<and> (isDouble d' \<and> 4 / 5 \<le> d' \<longrightarrow>
      frameTimes (Seconds d') = Some (map (\<lambda>i. binary64 (of_nat i * (d' / 8))) [0..<8])
      \<and> sorted_wrt (<) (map (\<lambda>i. binary64 (of_nat i * (d' / 8))) [0..<8]))
   \<and> frameTimes (Seconds 8) = Some [0, 1, 2, 3, 4, 5, 6, 7]
   \<and> sorted_wrt (<) [0, 1, 2, 3, 4, 5, 6, 7 :: rat] \<and> last [0, 1, 2, 3, 4, 5, 6, 7 :: rat] < 8"
proof (intro conjI impI)
  assume "isDouble d \<and> 0 < d"
  then have fd: "binary64 d = d" and d: "0 < d" by (simp_all add: isDouble_def)
  define g where "g i = min (binary64 (of_nat i * binary64 (d / 8))) (binary64 (d - binary64 (1 / 10)))" for i :: nat
  let ?ts = "map g [0..<8]"
  have 1: "frameTimes (Seconds d) = Some ?ts"
    using d frameTimes_Seconds [of d] by (simp add: g_def [abs_def])
  have 2: "length ?ts = 8" by simp
  have 3: "\<forall>i < 8. ?ts ! i = min (binary64 (of_nat i * binary64 (d / 8))) (binary64 (d - binary64 (1 / 10)))"
    by (simp add: g_def)
  have "0 \<le> binary64 (d / 8)" using d by (intro binary64_nonneg) simp
  then have 4: "sorted ?ts" unfolding g_def [abs_def] by (rule capped_sorted)
  have 5: "\<forall>t \<in> set ?ts. t < d"
  proof
    fix t assume "t \<in> set ?ts"
    then obtain i where i: "i < 8" "t = g i" by auto
    show "t < d"
    proof (cases "binary64 (1 / 10) \<le> d")
      case True
      with fd i have "binary64 (of_nat i * binary64 (d / 8)) < d" by (intro below_duration) simp_all
      then show ?thesis by (simp add: i g_def min_def)
    next
      case False
      then have "binary64 (d - binary64 (1 / 10)) \<le> 0" by (intro binary64_nonpos) simp
      with d show ?thesis by (simp add: i g_def min_def)
    qed
  qed
  have h: "hd ?ts = min 0 (binary64 (d - binary64 (1 / 10)))" by (simp add: upt_8 g_def binary64_0)
  have 6: "hd ?ts \<le> 0" by (simp add: h)
  have 7: "binary64 (1 / 10) \<le> d \<longrightarrow> hd ?ts = 0"
  proof
    assume "binary64 (1 / 10) \<le> d"
    then have "0 \<le> binary64 (d - binary64 (1 / 10))" by (intro binary64_nonneg) simp
    then show "hd ?ts = 0" by (simp add: h)
  qed
  have "0 \<le> binary64 (1 / 10)" by (intro binary64_nonneg) simp
  moreover have "- binary64 (1 / 10) \<le> binary64 (d - binary64 (1 / 10))"
    using \<open>isDouble d \<and> 0 < d\<close> extractFrames_in_range(3) [of d 0] by simp
  ultimately have 8: "- binary64 (1 / 10) \<le> hd ?ts" by (simp add: h)
  from 1 2 3 4 5 6 7 8 show "\<exists>ts. frameTimes (Seconds d) = Some ts \<and> length ts = 8
         \<and> (\<forall>i < 8. ts ! i = min (binary64 (of_nat i * binary64 (d / 8))) (binary64 (d - binary64 (1 / 10))))
         \<and> sorted ts \<and> (\<forall>t \<in> set ts. t < d)
         \<and> - binary64 (1 / 10) \<le> hd ts \<and> hd ts \<le> 0
         \<and> (binary64 (1 / 10) \<le> d \<longrightarrow> hd ts = 0)" by blast
next
  assume a: "isDouble d' \<and> 4 / 5 \<le> d'"
  then have fd: "binary64 d' = d'" and d: "4 / 5 \<le> d'" by (simp_all add: isDouble_def)
  have "map (\<lambda>i. min (binary64 (of_nat i * binary64 (d' / 8))) (binary64 (d' - binary64 (1 / 10)))) [0..<8]
        = map (\<lambda>i. binary64 (of_nat i * (d' / 8))) [0..<8]"
    using fd d by (intro map_cong refl uncapped) simp_all
  then show "frameTimes (Seconds d') = Some (map (\<lambda>i. binary64 (of_nat i * (d' / 8))) [0..<8])"
    using d frameTimes_Seconds [of d'] by simp
next
  assume a: "isDouble d' \<and> 4 / 5 \<le> d'"
  then have "2 powi (- 1022) \<le> d' / 8" using normal_small by linarith
  then show "sorted_wrt (<) (map (\<lambda>i. binary64 (of_nat i * (d' / 8))) [0..<8])"
    by (rule uncapped_increasing)
next
  show "frameTimes (Seconds 8) = Some [0, 1, 2, 3, 4, 5, 6, 7]"
    by (rule frameTimes_8)
next
  show "sorted_wrt (<) [0, 1, 2, 3, 4, 5, 6, 7 :: rat]" by simp
next
  show "last [0, 1, 2, 3, 4, 5, 6, 7 :: rat] < 8" by simp
qed

text \<open>
  The numbers \<open>0.4\<close>, which is \<open>3602879701896397 / 2^53\<close>, and 2 as durations.
\<close>

lemma isDouble_short: "isDouble (3602879701896397 / 9007199254740992)"
  by code_simp

lemma isDouble_2: "isDouble 2"
  by code_simp

lemma multiples_2: "map (\<lambda>i. binary64 (of_nat i * (2 / 8))) [0..<8] = [0, 1 / 4, 1 / 2, 3 / 4, 1, 5 / 4, 3 / 2, 7 / 4]"
  by code_simp

lemma binary64_tenth_short: "binary64 (1 / 10) \<le> 3602879701896397 / 9007199254740992"
  by (simp add: binary64_tenth)

theorem frameTimes_spacing_witness:
  "isDouble (3602879701896397 / 9007199254740992) \<and> isDouble 2 \<and> 4 / 5 \<le> (2::rat)
   \<and> frameTimes (Seconds 2) = Some [0, 1 / 4, 1 / 2, 3 / 4, 1, 5 / 4, 3 / 2, 7 / 4]
   \<and> (\<exists>ts. frameTimes (Seconds (3602879701896397 / 9007199254740992)) = Some ts \<and> length ts = 8
         \<and> sorted ts \<and> (\<forall>t \<in> set ts. t < 3602879701896397 / 9007199254740992) \<and> hd ts = 0)"
proof -
  note t = frameTimes_spacing [of "3602879701896397 / 9007199254740992" 2]
  have a: "isDouble (3602879701896397 / 9007199254740992) \<and> (0::rat) < 3602879701896397 / 9007199254740992"
    using isDouble_short by simp
  have b: "isDouble 2 \<and> 4 / 5 \<le> (2::rat)"
    using isDouble_2 by simp
  from t a obtain ts where ts: "frameTimes (Seconds (3602879701896397 / 9007199254740992)) = Some ts"
    "length ts = 8" "sorted ts" "\<forall>t \<in> set ts. t < 3602879701896397 / 9007199254740992"
    "binary64 (1 / 10) \<le> 3602879701896397 / 9007199254740992 \<longrightarrow> hd ts = 0"
    by blast
  from ts(5) binary64_tenth_short have h: "hd ts = 0" by blast
  from t b have "frameTimes (Seconds 2) = Some (map (\<lambda>i. binary64 (of_nat i * (2 / 8))) [0..<8])"
    by blast
  then have c: "frameTimes (Seconds 2) = Some [0, 1 / 4, 1 / 2, 3 / 4, 1, 5 / 4, 3 / 2, 7 / 4]"
    by (simp only: multiples_2)
  from a b c ts h show ?thesis by blast
qed

text \<open>
  A video of 0.4 seconds: the times are \<open>0, 0.05, 0.1, 0.15000000000000002, 0.2, 0.25,
  0.30000000000000004, 0.30000000000000004\<close>. The cap \<open>0.4 - 0.1\<close> holds the last time
  at the one before it, so the times are neither evenly spaced nor strictly increasing.
\<close>

lemma frameTimes_short:
  "frameTimes (Seconds (3602879701896397 / 9007199254740992)) =
     Some [0, 3602879701896397 / 72057594037927936, 3602879701896397 / 36028797018963968,
           1351079888211149 / 9007199254740992, 3602879701896397 / 18014398509481984,
           1 / 4, 1351079888211149 / 4503599627370496, 1351079888211149 / 4503599627370496]"
  by code_simp

theorem frameTimes_short_video_counterexample:
  "isDouble (3602879701896397 / 9007199254740992)
   \<and> frameTimes (Seconds (3602879701896397 / 9007199254740992)) =
       Some [0, 3602879701896397 / 72057594037927936, 3602879701896397 / 36028797018963968,
             1351079888211149 / 9007199254740992, 3602879701896397 / 18014398509481984,
             1 / 4, 1351079888211149 / 4503599627370496, 1351079888211149 / 4503599627370496]
   \<and> the (frameTimes (Seconds (3602879701896397 / 9007199254740992))) ! 7
       - the (frameTimes (Seconds (3602879701896397 / 9007199254740992))) ! 6 = 0
   \<and> the (frameTimes (Seconds (3602879701896397 / 9007199254740992))) ! 1
       - the (frameTimes (Seconds (3602879701896397 / 9007199254740992))) ! 0
       = 3602879701896397 / 72057594037927936"
  using isDouble_short by (simp add: frameTimes_short)

section \<open>What the capture handlers do to the log and the session\<close>

lemma saveAndScan_result:
  assumes "saveAndScan t d w = (r, w1)"
  shows "auditLog w1 = auditLog w @ [r]" and "ledger w1 = r # ledger w"
    and "vin r = vin d" and "sessionId r = sessionId d" and "location r = location d"
    and "entryMethod r = entryMethod d"
    and "screen (app w1) = screen (app w)" and "currentSessionId (app w1) = currentSessionId (app w)"
    and "selectedArea (app w1) = selectedArea (app w)"
  using assms
  by (auto simp: saveAndScan_def addScanLog_def Let_def handleScan_def
      mockFirestore_saveToLocalStorage ScanLogData.extend_def)

lemma some_vin_iff: "list_ex (\<lambda>log'. vin log' = v) logs \<longleftrightarrow> v \<in> vin ` set logs"
  by (auto simp: list_ex_iff)

subsection \<open>Manual entry\<close>

lemma manual_error_unchanged:
  "ManualVinInput_handleSubmit position t props v w = (Inl e, w1) \<Longrightarrow> w1 = w"
  by (auto simp: ManualVinInput_handleSubmit_def Let_def split_beta split: if_splits sum.splits)

lemma manual_success:
  assumes "ManualVinInput_handleSubmit position t props v w = (Inr r, w1)"
  shows "length v = 17" and "v \<notin> vin ` set (propSessionLogs props)"
    and "position = Inr (location r)"
    and "auditLog w1 = auditLog w @ [r]" and "ledger w1 = r # ledger w" and "vin r = v"
    and "sessionId r = propSessionId props" and "entryMethod r = Manual"
proof -
  from assms have a: "length v = 17" "\<not> list_ex (\<lambda>log'. vin log' = v) (propSessionLogs props)"
    by (auto simp: ManualVinInput_handleSubmit_def split: if_splits)
  with assms obtain loc where loc: "position = Inr loc"
    by (cases position) (auto simp: ManualVinInput_handleSubmit_def)
  let ?d = "\<lparr>sessionId = propSessionId props, vin = v,
             parkingArea = propParkingArea props, timestamp = newDate t,
             location = loc, imageUrl = None, entryMethod = Manual,
             userId = uid (currentUser props), userEmail = email (currentUser props)\<rparr>"
  from assms a loc have s: "saveAndScan t ?d w = (r, w1)"
    by (simp add: ManualVinInput_handleSubmit_def Let_def split_beta prod_eq_iff)
  show "length v = 17" by fact
  show "v \<notin> vin ` set (propSessionLogs props)" using a(2) by (simp add: some_vin_iff)
  show "position = Inr (location r)" using loc saveAndScan_result(5) [OF s] by simp
  show "auditLog w1 = auditLog w @ [r]" by (rule saveAndScan_result(1) [OF s])
  show "ledger w1 = r # ledger w" by (rule saveAndScan_result(2) [OF s])
  show "vin r = v" using saveAndScan_result(3) [OF s] by simp
  show "sessionId r = propSessionId props" using saveAndScan_result(4) [OF s] by simp
  show "entryMethod r = Manual" using saveAndScan_result(6) [OF s] by simp
qed

lemma manual_duplicate:
  "length v = 17 \<Longrightarrow> v \<in> vin ` set (propSessionLogs props) \<Longrightarrow>
     ManualVinInput_handleSubmit position t props v w = (Inl (DuplicateVin v), w)"
  by (simp add: ManualVinInput_handleSubmit_def some_vin_iff)

lemma manual_accepts:
  "length v = 17 \<Longrightarrow> v \<notin> vin ` set (propSessionLogs props) \<Longrightarrow>
     \<exists>r w1. ManualVinInput_handleSubmit (Inr loc) t props v w = (Inr r, w1)"
  by (simp add: ManualVinInput_handleSubmit_def some_vin_iff Let_def split_beta)

lemma manual_no_position:
  "\<exists>e. ManualVinInput_handleSubmit (Inl m) t props v w = (Inl e, w)"
  by (simp add: ManualVinInput_handleSubmit_def)

lemma manual_no_position_error:
  "length v = 17 \<Longrightarrow> v \<notin> vin ` set (propSessionLogs props) \<Longrightarrow>
     ManualVinInput_handleSubmit (Inl m) t props v w = (Inl (CouldNotGetLocation m), w)"
  by (simp add: ManualVinInput_handleSubmit_def some_vin_iff)

subsection \<open>Camera\<close>

lemma confirmVin_save_error_unchanged:
  "confirmVin_save position mockUrl t props vi w = (Inl e, w1) \<Longrightarrow> w1 = w"
  by (auto simp: confirmVin_save_def Let_def split_beta split: sum.splits)

lemma confirmVin_save_success:
  assumes "confirmVin_save position mockUrl t props vi w = (Inr r, w1)"
  shows "position = Inr (location r)"
    and "auditLog w1 = auditLog w @ [r]" and "ledger w1 = r # ledger w" and "vin r = fst vi"
    and "sessionId r = propSessionId props" and "entryMethod r = Camera"
proof -
  from assms obtain loc where loc: "position = Inr loc"
    by (cases position) (auto simp: confirmVin_save_def)
  let ?d = "\<lparr>sessionId = propSessionId props, vin = fst vi,
             parkingArea = propParkingArea props, timestamp = newDate t,
             location = loc, imageUrl = Some (uploadVinImage mockUrl (fst vi) (snd vi)),
             entryMethod = Camera,
             userId = uid (currentUser props), userEmail = email (currentUser props)\<rparr>"
  from assms loc have s: "saveAndScan t ?d w = (r, w1)"
    by (simp add: confirmVin_save_def Let_def split_beta prod_eq_iff)
  show "position = Inr (location r)" using loc saveAndScan_result(5) [OF s] by simp
  show "auditLog w1 = auditLog w @ [r]" by (rule saveAndScan_result(1) [OF s])
  show "ledger w1 = r # ledger w" by (rule saveAndScan_result(2) [OF s])
  show "vin r = fst vi" using saveAndScan_result(3) [OF s] by simp
  show "sessionId r = propSessionId props" using saveAndScan_result(4) [OF s] by simp
  show "entryMethod r = Camera" using saveAndScan_result(6) [OF s] by simp
qed

lemma confirmVin_save_accepts:
  "\<exists>r w1. confirmVin_save (Inr loc) mockUrl t props vi w = (Inr r, w1)"
  by (simp add: confirmVin_save_def Let_def split_beta)

lemma confirmVin_check_Inr:
  "confirmVin_check props vinState capturedImage = Inr vi \<longleftrightarrow>
     vinState = Some (fst vi) \<and> capturedImage = Some (snd vi) \<and> fst vi \<noteq> []
     \<and> fst vi \<notin> vin ` set (propSessionLogs props)"
  by (cases vi) (auto simp: confirmVin_check_def some_vin_iff split: option.splits)

lemma confirmVin_error_unchanged:
  "confirmVin position mockUrl t props vinState capturedImage w = (Inl e, w1) \<Longrightarrow> w1 = w"
  by (auto simp: confirmVin_def split: sum.splits dest: confirmVin_save_error_unchanged)

lemma confirmVin_success:
  assumes "confirmVin position mockUrl t props vinState capturedImage w = (Inr r, w1)"
  shows "vinState = Some (vin r)" and "vin r \<noteq> []"
    and "vin r \<notin> vin ` set (propSessionLogs props)" and "position = Inr (location r)"
    and "auditLog w1 = auditLog w @ [r]" and "ledger w1 = r # ledger w"
    and "sessionId r = propSessionId props" and "entryMethod r = Camera"
proof -
  from assms obtain vi where c: "confirmVin_check props vinState capturedImage = Inr vi"
    and s: "confirmVin_save position mockUrl t props vi w = (Inr r, w1)"
    by (auto simp: confirmVin_def split: sum.splits)
  note f = confirmVin_save_success [OF s]
  from c f(4) show "vinState = Some (vin r)" "vin r \<noteq> []"
    "vin r \<notin> vin ` set (propSessionLogs props)"
    by (simp_all add: confirmVin_check_Inr)
  from f show "position = Inr (location r)" "auditLog w1 = auditLog w @ [r]"
    "ledger w1 = r # ledger w" "sessionId r = propSessionId props" "entryMethod r = Camera"
    by simp_all
qed

lemma confirmVin_duplicate:
  "v \<noteq> [] \<Longrightarrow> v \<in> vin ` set (propSessionLogs props) \<Longrightarrow>
     confirmVin position mockUrl t props (Some v) (Some b) w = (Inl (DuplicateVin v), w)"
  by (simp add: confirmVin_def confirmVin_check_def some_vin_iff)

lemma confirmVin_accepts:
  assumes "v \<noteq> []" "v \<notin> vin ` set (propSessionLogs props)"
  shows "\<exists>r w1. confirmVin (Inr loc) mockUrl t props (Some v) (Some b) w = (Inr r, w1)"
proof -
  from assms have "confirmVin_check props (Some v) (Some b) = Inr (v, b)"
    by (simp add: confirmVin_check_Inr)
  then show ?thesis
    using confirmVin_save_accepts [of loc mockUrl t props "(v, b)" w] by (simp add: confirmVin_def)
qed

lemma confirmVin_no_position:
  "\<exists>e. confirmVin (Inl m) mockUrl t props vinState capturedImage w = (Inl e, w)"
  by (simp add: confirmVin_def confirmVin_save_def split: sum.splits)

lemma confirmVin_no_position_error:
  "v \<noteq> [] \<Longrightarrow> v \<notin> vin ` set (propSessionLogs props) \<Longrightarrow>
     confirmVin (Inl m) mockUrl t props (Some v) (Some b) w = (Inl (CouldNotGetLocation m), w)"
  by (simp add: confirmVin_def confirmVin_check_def confirmVin_save_def some_vin_iff)

subsection \<open>Image upload\<close>

lemma upload_error_unchanged:
  "ImageAnalyzer_handleSubmit position base64Image response mockUrl t props imageFile w = (Inl e, w1)
     \<Longrightarrow> w1 = w"
  by (auto simp: ImageAnalyzer_handleSubmit_def Let_def split_beta
      split: option.splits sum.splits if_splits)

lemma upload_success:
  assumes "ImageAnalyzer_handleSubmit position base64Image response mockUrl t props imageFile w = (Inr r, w1)"
  shows "extractVinFromImage response = Inr (vin r)"
    and "vin r \<notin> vin ` set (propSessionLogs props)" and "position = Inr (location r)"
    and "auditLog w1 = auditLog w @ [r]" and "ledger w1 = r # ledger w"
    and "sessionId r = propSessionId props" and "entryMethod r = Upload"
proof -
  from assms obtain f where fl: "imageFile = Some f"
    by (cases imageFile) (auto simp: ImageAnalyzer_handleSubmit_def)
  from assms fl obtain loc where loc: "position = Inr loc"
    by (cases position) (auto simp: ImageAnalyzer_handleSubmit_def)
  from assms fl loc obtain encoded where b64: "base64Image = Some encoded"
    by (cases base64Image) (auto simp: ImageAnalyzer_handleSubmit_def)
  from assms fl loc b64 obtain v where v: "extractVinFromImage response = Inr v"
    by (cases "extractVinFromImage response") (auto simp: ImageAnalyzer_handleSubmit_def)
  from assms fl loc b64 v have nd: "\<not> list_ex (\<lambda>log'. vin log' = v) (propSessionLogs props)"
    by (auto simp: ImageAnalyzer_handleSubmit_def split: if_splits)
  let ?d = "\<lparr>sessionId = propSessionId props, vin = v,
             parkingArea = propParkingArea props, timestamp = newDate t,
             location = loc, imageUrl = Some (uploadVinImage mockUrl v f),
             entryMethod = Upload,
             userId = uid (currentUser props), userEmail = email (currentUser props)\<rparr>"
  from assms fl loc b64 v nd have s: "saveAndScan t ?d w = (r, w1)"
    by (simp add: ImageAnalyzer_handleSubmit_def Let_def split_beta prod_eq_iff)
  have vr: "vin r = v" using saveAndScan_result(3) [OF s] by simp
  show "extractVinFromImage response = Inr (vin r)" using v vr by simp
  show "vin r \<notin> vin ` set (propSessionLogs props)" using nd vr by (simp add: some_vin_iff)
  show "position = Inr (location r)" using loc saveAndScan_result(5) [OF s] by simp
  show "auditLog w1 = auditLog w @ [r]" by (rule saveAndScan_result(1) [OF s])
  show "ledger w1 = r # ledger w" by (rule saveAndScan_result(2) [OF s])
  show "sessionId r = propSessionId props" using saveAndScan_result(4) [OF s] by simp
  show "entryMethod r = Upload" using saveAndScan_result(6) [OF s] by simp
qed

lemma upload_duplicate:
  "extractVinFromImage response = Inr v \<Longrightarrow> v \<in> vin ` set (propSessionLogs props) \<Longrightarrow>
     ImageAnalyzer_handleSubmit (Inr loc) (Some encoded) response mockUrl t props (Some file) w
       = (Inl (DuplicateVin v), w)"
  by (simp add: ImageAnalyzer_handleSubmit_def some_vin_iff)

lemma upload_no_position:
  "\<exists>e. ImageAnalyzer_handleSubmit (Inl m) base64Image response mockUrl t props imageFile w = (Inl e, w)"
  by (simp add: ImageAnalyzer_handleSubmit_def split: option.splits)

lemma upload_no_position_error:
  "ImageAnalyzer_handleSubmit (Inl m) base64Image response mockUrl t props (Some file) w
     = (Inl (CouldNotGetLocation m), w)"
  by (simp add: ImageAnalyzer_handleSubmit_def)

subsection \<open>Video batch\<close>

lemma saveLoop_result:
  assumes "saveLoop ticks props loc vs i (n, w) = (k, w1)"
  shows "\<exists>recs. k = n + length recs \<and> auditLog w1 = auditLog w @ recs
           \<and> ledger w1 = rev recs @ ledger w
           \<and> map vin recs = filter (\<lambda>v. v \<notin> vin ` set (propSessionLogs props)) vs
           \<and> (\<forall>r \<in> set recs. location r = loc \<and> entryMethod r = Video
                  \<and> sessionId r = propSessionId props)"
  using assms
proof (induction vs arbitrary: i n w)
  case Nil
  then show ?case by simp
next
  case (Cons v vs)
  show ?case
  proof (cases "v \<in> vin ` set (propSessionLogs props)")
    case True
    with Cons.prems have "saveLoop ticks props loc vs (Suc i) (n, w) = (k, w1)"
      by (simp add: some_vin_iff)
    from Cons.IH [OF this] True show ?thesis by simp
  next
    case False
    let ?d = "\<lparr>sessionId = propSessionId props, vin = v,
                parkingArea = propParkingArea props, timestamp = newDate (ticks i),
                location = loc, imageUrl = None, entryMethod = Video,
                userId = uid (currentUser props), userEmail = email (currentUser props)\<rparr>"
    obtain r w2 where s: "saveAndScan (ticks i) ?d w = (r, w2)" by (cases "saveAndScan (ticks i) ?d w")
    with Cons.prems False have "saveLoop ticks props loc vs (Suc i) (Suc n, w2) = (k, w1)"
      by (simp add: some_vin_iff Let_def)
    from Cons.IH [OF this] obtain recs where
      recs: "k = Suc n + length recs" "auditLog w1 = auditLog w2 @ recs"
        "ledger w1 = rev recs @ ledger w2"
        "map vin recs = filter (\<lambda>v. v \<notin> vin ` set (propSessionLogs props)) vs"
        "\<forall>r \<in> set recs. location r = loc \<and> entryMethod r = Video
                  \<and> sessionId r = propSessionId props"
      by blast
    note f = saveAndScan_result [OF s]
    have "k = n + length (r # recs)" using recs(1) by simp
    moreover have "auditLog w1 = auditLog w @ (r # recs)" using recs(2) f(1) by simp
    moreover have "ledger w1 = rev (r # recs) @ ledger w" using recs(3) f(2) by simp
    moreover have "map vin (r # recs) = filter (\<lambda>v. v \<notin> vin ` set (propSessionLogs props)) (v # vs)"
      using recs(4) f(3) False by simp
    moreover have "\<forall>x \<in> set (r # recs). location x = loc \<and> entryMethod x = Video
                  \<and> sessionId x = propSessionId props"
      using recs(5) f(4,5,6) by simp
    ultimately show ?thesis by blast
  qed
qed

lemma handleGenerateRecords_nothing:
  "detectedVins = None \<or> detectedVins = Some [] \<Longrightarrow>
     handleGenerateRecords position ticks props detectedVins w = (None, w)"
  by (auto simp: handleGenerateRecords_def)

lemma handleGenerateRecords_result:
  assumes "vins \<noteq> []"
  shows "\<exists>recs w1. handleGenerateRecords position ticks props (Some vins) w = (Some (length recs), w1)
           \<and> auditLog w1 = auditLog w @ recs \<and> ledger w1 = rev recs @ ledger w
           \<and> map vin recs = filter (\<lambda>v. v \<notin> vin ` set (propSessionLogs props)) vins
           \<and> (\<forall>r \<in> set recs. location r = videoLocation position \<and> entryMethod r = Video
                  \<and> sessionId r = propSessionId props)"
proof -
  obtain k w1 where s: "saveLoop ticks props (videoLocation position) vins 0 (0, w) = (k, w1)"
    by (cases "saveLoop ticks props (videoLocation position) vins 0 (0, w)")
  from saveLoop_result [OF s] obtain recs where
    recs: "k = length recs" "auditLog w1 = auditLog w @ recs" "ledger w1 = rev recs @ ledger w"
      "map vin recs = filter (\<lambda>v. v \<notin> vin ` set (propSessionLogs props)) vins"
      "\<forall>r \<in> set recs. location r = videoLocation position \<and> entryMethod r = Video
                  \<and> sessionId r = propSessionId props"
    by auto
  have "handleGenerateRecords position ticks props (Some vins) w = (Some (length recs), w1)"
    using assms s recs(1) by (simp add: handleGenerateRecords_def)
  with recs show ?thesis by blast
qed

text \<open>In every case the log and the session only grow, by the same records.\<close>

lemma handleGenerateRecords_effect:
  "\<exists>recs. auditLog (snd (handleGenerateRecords position ticks props detectedVins w))
             = auditLog w @ recs
         \<and> ledger (snd (handleGenerateRecords position ticks props detectedVins w))
             = rev recs @ ledger w
         \<and> distinct (map vin recs) = distinct (filter (\<lambda>v. v \<notin> vin ` set (propSessionLogs props))
                                         (case detectedVins of None \<Rightarrow> [] | Some vs \<Rightarrow> vs))
         \<and> set (map vin recs) \<subseteq> (case detectedVins of None \<Rightarrow> {} | Some vs \<Rightarrow> set vs)
              - vin ` set (propSessionLogs props)
         \<and> (\<forall>r \<in> set recs. entryMethod r = Video)"
proof (cases "detectedVins = None \<or> detectedVins = Some []")
  case True
  then have "handleGenerateRecords position ticks props detectedVins w = (None, w)"
    by (rule handleGenerateRecords_nothing)
  with True show ?thesis by (intro exI [of _ "[]"]) auto
next
  case False
  then obtain vins where v: "detectedVins = Some vins" "vins \<noteq> []" by auto
  from handleGenerateRecords_result [OF v(2), of position ticks props w] obtain recs w1 where
    r: "handleGenerateRecords position ticks props (Some vins) w = (Some (length recs), w1)"
      "auditLog w1 = auditLog w @ recs" "ledger w1 = rev recs @ ledger w"
      "map vin recs = filter (\<lambda>v. v \<notin> vin ` set (propSessionLogs props)) vins"
      "\<forall>r \<in> set recs. location r = videoLocation position \<and> entryMethod r = Video
                  \<and> sessionId r = propSessionId props"
    by blast
  show ?thesis
    using v r by (intro exI [of _ recs]) auto
qed

section \<open>Where the identifiers come from\<close>

lemma extractVinFromImage_Inr:
  "extractVinFromImage response = Inr v \<Longrightarrow> length v = 17 \<and> list_all vinChar v"
  by (cases response)
     (auto simp: extractVinFromImage_def Let_def list_all_iff split: if_splits)

lemma handleVinChange_vinChars: "list_all vinChar (handleVinChange toUpperCase typed)"
  by (auto simp: handleVinChange_def list_all_iff dest: in_set_takeD)

lemma validVins_lengths: "s \<in> set (validVins vs) \<Longrightarrow> 10 \<le> length s \<and> length s \<le> 20"
  by (simp add: set_validVins)

lemma detected_wellformed:
  assumes "fst (handleAnalyze_parse rawResult) = Some ds"
  shows "distinct ds" and "\<forall>d \<in> set ds. 10 \<le> length d \<and> length d \<le> 20"
proof -
  from assms have "(\<exists>vs. ds = newSet (validVins vs)) \<or> ds = newSet (matchVinRegex rawResult)"
    by (auto simp: handleAnalyze_parse_def Let_def split: option.splits json.splits if_splits)
  then show "distinct ds" by (auto simp: distinct_newSet)
  from \<open>(\<exists>vs. ds = newSet (validVins vs)) \<or> ds = newSet (matchVinRegex rawResult)\<close>
  show "\<forall>d \<in> set ds. 10 \<le> length d \<and> length d \<le> 20"
    using validVins_lengths matchVinRegex_sound by (auto simp: set_newSet)
qed

section \<open>Invariants of the runs\<close>

lemma reachable_ledger_distinct: "reachable u w \<Longrightarrow> distinct (map vin (ledger w))"
proof (induction rule: reachable.induct)
  case at_load
  show ?case by (simp add: initialWorld_def)
next
  case (by_start w now area)
  show ?case by (simp add: handleStart_def)
next
  case (by_finish w)
  then show ?case by (simp add: handleFinish_def)
next
  case (by_back w)
  then show ?case by (simp add: handleBackToScan_def)
next
  case (by_startNew w)
  show ?case by (simp add: handleStartNewCheck_def)
next
  case (by_manual w position t toUpperCase typed)
  let ?res = "ManualVinInput_handleSubmit position t (commonProps u (app w))
                (handleVinChange toUpperCase typed) w"
  show ?case
  proof (cases "fst ?res")
    case (Inl e)
    then have "?res = (Inl e, snd ?res)" by (simp add: prod_eq_iff)
    from manual_error_unchanged [OF this] by_manual.IH show ?thesis by simp
  next
    case (Inr r)
    then have "?res = (Inr r, snd ?res)" by (simp add: prod_eq_iff)
    from manual_success(2,5,6) [OF this] by_manual.IH show ?thesis
      by (simp add: commonProps_def)
  qed
next
  case (by_camera w response v position mockUrl t capturedImage)
  let ?res = "confirmVin position mockUrl t (commonProps u (app w)) (Some v) capturedImage w"
  show ?case
  proof (cases "fst ?res")
    case (Inl e)
    then have "?res = (Inl e, snd ?res)" by (simp add: prod_eq_iff)
    from confirmVin_error_unchanged [OF this] by_camera.IH show ?thesis by simp
  next
    case (Inr r)
    then have "?res = (Inr r, snd ?res)" by (simp add: prod_eq_iff)
    from confirmVin_success(3,6) [OF this] by_camera.IH show ?thesis
      by (simp add: commonProps_def)
  qed
next
  case (by_upload w position base64Image response mockUrl t imageFile)
  let ?res = "ImageAnalyzer_handleSubmit position base64Image response mockUrl t (commonProps u (app w))
                imageFile w"
  show ?case
  proof (cases "fst ?res")
    case (Inl e)
    then have "?res = (Inl e, snd ?res)" by (simp add: prod_eq_iff)
    from upload_error_unchanged [OF this] by_upload.IH show ?thesis by simp
  next
    case (Inr r)
    then have "?res = (Inr r, snd ?res)" by (simp add: prod_eq_iff)
    from upload_success(2,5) [OF this] by_upload.IH show ?thesis
      by (simp add: commonProps_def)
  qed
next
  case (by_video w position ticks rawResult)
  let ?dv = "fst (handleAnalyze_parse rawResult)"
  from handleGenerateRecords_effect [of position ticks "commonProps u (app w)" ?dv w]
  obtain recs where
    l: "ledger (snd (handleGenerateRecords position ticks (commonProps u (app w)) ?dv w))
          = rev recs @ ledger w"
    and d: "distinct (map vin recs) = distinct (filter (\<lambda>v. v \<notin> vin ` set (propSessionLogs (commonProps u (app w))))
                                         (case ?dv of None \<Rightarrow> [] | Some vs \<Rightarrow> vs))"
    and s: "set (map vin recs) \<subseteq> (case ?dv of None \<Rightarrow> {} | Some vs \<Rightarrow> set vs)
              - vin ` set (propSessionLogs (commonProps u (app w)))"
    by blast
  have "distinct (case ?dv of None \<Rightarrow> [] | Some vs \<Rightarrow> vs)"
    using detected_wellformed(1) [of rawResult] by (cases ?dv) auto
  with d have d': "distinct (map vin recs)" by simp
  from s have "set (map vin recs) \<inter> vin ` set (ledger w) = {}"
    by (auto simp: commonProps_def)
  with d' by_video.IH l show ?case
    by (auto simp: rev_map [symmetric])
qed

lemma reachable_vins_wellformed: "reachable u w \<Longrightarrow> list_all wellformedVin (auditLog w)"
proof (induction rule: reachable.induct)
  case at_load
  show ?case by (simp add: initialWorld_def)
next
  case (by_start w now area)
  then show ?case by simp
next
  case (by_finish w)
  then show ?case by simp
next
  case (by_back w)
  then show ?case by simp
next
  case (by_startNew w)
  then show ?case by simp
next
  case (by_manual w position t toUpperCase typed)
  let ?res = "ManualVinInput_handleSubmit position t (commonProps u (app w))
                (handleVinChange toUpperCase typed) w"
  show ?case
  proof (cases "fst ?res")
    case (Inl e)
    then have "?res = (Inl e, snd ?res)" by (simp add: prod_eq_iff)
    from manual_error_unchanged [OF this] by_manual.IH show ?thesis by simp
  next
    case (Inr r)
    then have "?res = (Inr r, snd ?res)" by (simp add: prod_eq_iff)
    from manual_success(1,4,6,8) [OF this] by_manual.IH
      handleVinChange_vinChars [of toUpperCase typed]
    show ?thesis by (simp add: wellformedVin_def)
  qed
next
  case (by_camera w response v position mockUrl t capturedImage)
  let ?res = "confirmVin position mockUrl t (commonProps u (app w)) (Some v) capturedImage w"
  show ?case
  proof (cases "fst ?res")
    case (Inl e)
    then have "?res = (Inl e, snd ?res)" by (simp add: prod_eq_iff)
    from confirmVin_error_unchanged [OF this] by_camera.IH show ?thesis by simp
  next
    case (Inr r)
    then have "?res = (Inr r, snd ?res)" by (simp add: prod_eq_iff)
    from confirmVin_success(1,5,8) [OF this] by_camera.IH
      extractVinFromImage_Inr [OF by_camera.hyps(2)]
    show ?thesis by (simp add: wellformedVin_def)
  qed
next
  case (by_upload w position base64Image response mockUrl t imageFile)
  let ?res = "ImageAnalyzer_handleSubmit position base64Image response mockUrl t (commonProps u (app w))
                imageFile w"
  show ?case
  proof (cases "fst ?res")
    case (Inl e)
    then have "?res = (Inl e, snd ?res)" by (simp add: prod_eq_iff)
    from upload_error_unchanged [OF this] by_upload.IH show ?thesis by simp
  next
    case (Inr r)
    then have "?res = (Inr r, snd ?res)" by (simp add: prod_eq_iff)
    from upload_success(1,4,7) [OF this] by_upload.IH
      extractVinFromImage_Inr [of response "vin r"]
    show ?thesis by (simp add: wellformedVin_def)
  qed
next
  case (by_video w position ticks rawResult)
  let ?dv = "fst (handleAnalyze_parse rawResult)"
  from handleGenerateRecords_effect [of position ticks "commonProps u (app w)" ?dv w]
  obtain recs where
    a: "auditLog (snd (handleGenerateRecords position ticks (commonProps u (app w)) ?dv w))
          = auditLog w @ recs"
    and s: "set (map vin recs) \<subseteq> (case ?dv of None \<Rightarrow> {} | Some vs \<Rightarrow> set vs)
              - vin ` set (propSessionLogs (commonProps u (app w)))"
    and m: "\<forall>r \<in> set recs. entryMethod r = Video"
    by blast
  have "\<forall>d \<in> (case ?dv of None \<Rightarrow> {} | Some vs \<Rightarrow> set vs). 10 \<le> length d \<and> length d \<le> 20"
    using detected_wellformed(2) [of rawResult] by (cases ?dv) auto
  with s have "\<forall>r \<in> set recs. 10 \<le> length (vin r) \<and> length (vin r) \<le> 20" by auto
  with m have "list_all wellformedVin recs" by (simp add: list_all_iff wellformedVin_def)
  with a by_video.IH show ?case by simp
qed

section \<open>Duplicates within a session\<close>

text \<open>A record of the session stays in it until a new session is started.\<close>

lemma inSession_ledger: "inSession u w w2 \<Longrightarrow> set (ledger w) \<subseteq> set (ledger w2)"
proof (induction rule: inSession.induct)
  case at_once
  show ?case by simp
next
  case (after_finish w1)
  then show ?case by (simp add: handleFinish_def)
next
  case (after_back w1)
  then show ?case by (simp add: handleBackToScan_def)
next
  case (after_manual w1 position t v)
  let ?res = "ManualVinInput_handleSubmit position t (commonProps u (app w1)) v w1"
  show ?case
  proof (cases "fst ?res")
    case (Inl e)
    then have "?res = (Inl e, snd ?res)" by (simp add: prod_eq_iff)
    from manual_error_unchanged [OF this] after_manual.IH show ?thesis by simp
  next
    case (Inr r)
    then have "?res = (Inr r, snd ?res)" by (simp add: prod_eq_iff)
    from manual_success(5) [OF this] after_manual.IH show ?thesis by auto
  qed
next
  case (after_camera w1 position mockUrl t vinState capturedImage)
  let ?res = "confirmVin position mockUrl t (commonProps u (app w1)) vinState capturedImage w1"
  show ?case
  proof (cases "fst ?res")
    case (Inl e)
    then have "?res = (Inl e, snd ?res)" by (simp add: prod_eq_iff)
    from confirmVin_error_unchanged [OF this] after_camera.IH show ?thesis by simp
  next
    case (Inr r)
    then have "?res = (Inr r, snd ?res)" by (simp add: prod_eq_iff)
    from confirmVin_success(6) [OF this] after_camera.IH show ?thesis by auto
  qed
next
  case (after_upload w1 position base64Image response mockUrl t imageFile)
  let ?res = "ImageAnalyzer_handleSubmit position base64Image response mockUrl t
                (commonProps u (app w1)) imageFile w1"
  show ?case
  proof (cases "fst ?res")
    case (Inl e)
    then have "?res = (Inl e, snd ?res)" by (simp add: prod_eq_iff)
    from upload_error_unchanged [OF this] after_upload.IH show ?thesis by simp
  next
    case (Inr r)
    then have "?res = (Inr r, snd ?res)" by (simp add: prod_eq_iff)
    from upload_success(5) [OF this] after_upload.IH show ?thesis by auto
  qed
next
  case (after_video w1 position ticks detectedVins)
  from handleGenerateRecords_effect [of position ticks "commonProps u (app w1)" detectedVins w1]
  obtain recs where
    "ledger (snd (handleGenerateRecords position ticks (commonProps u (app w1)) detectedVins w1))
       = rev recs @ ledger w1"
    by blast
  with after_video.IH show ?case by auto
qed

lemma accepted_stays:
  assumes "(ManualVinInput_handleSubmit position t (commonProps u (app w)) x w = (Inr r, w1)
      \<or> confirmVin position mockUrl t (commonProps u (app w)) (Some x) (Some b) w = (Inr r, w1))
     \<and> inSession u w1 w2"
  shows "x \<noteq> []" and "x \<in> vin ` set (propSessionLogs (commonProps u (app w2)))"
proof -
  from assms have acc: "x \<noteq> [] \<and> x \<in> vin ` set (ledger w1)"
  proof (elim conjE disjE)
    assume m: "ManualVinInput_handleSubmit position t (commonProps u (app w)) x w = (Inr r, w1)"
    from manual_success(1,5,6) [OF m] show ?thesis by auto
  next
    assume c: "confirmVin position mockUrl t (commonProps u (app w)) (Some x) (Some b) w = (Inr r, w1)"
    from confirmVin_success(1,2,6) [OF c] show ?thesis by auto
  qed
  from assms have "inSession u w1 w2" by simp
  then have "set (ledger w1) \<subseteq> set (ledger w2)" by (rule inSession_ledger)
  with acc show "x \<in> vin ` set (propSessionLogs (commonProps u (app w2)))"
    by (auto simp: commonProps_def)
  from acc show "x \<noteq> []" by simp
qed

text \<open>
  C1. When handlers run one after the other: once the manual entry or the camera
  confirmation of an identifier has been accepted in a session, every later attempt in
  that session to record the same identifier, by manual entry or by the camera, fails
  with the duplicate error and leaves the log and the session as they are. After
  \<open>handleStart\<close> has opened another session the same identifier is accepted again,
  although the log still holds it, and the new session holds just that record. In
  every world reached this way no two records of the session carry the same identifier.
\<close>

theorem duplicate_rejected_in_session_only:
  "((ManualVinInput_handleSubmit position t (commonProps u (app w)) x w = (Inr r, w1)
      \<or> confirmVin position mockUrl t (commonProps u (app w)) (Some x) (Some b) w = (Inr r, w1))
     \<and> inSession u w1 w2 \<longrightarrow>
      (length x = 17 \<longrightarrow>
         ManualVinInput_handleSubmit position' t' (commonProps u (app w2)) x w2
           = (Inl (DuplicateVin x), w2))
      \<and> confirmVin position' mockUrl' t' (commonProps u (app w2)) (Some x) (Some b') w2
           = (Inl (DuplicateVin x), w2)
      \<and> (length x = 17 \<longrightarrow>
           (\<exists>r3 w3. ManualVinInput_handleSubmit (Inr loc) t'
                        (commonProps u (handleStart now area (app w2))) x
                        (w2\<lparr>app := handleStart now area (app w2)\<rparr>) = (Inr r3, w3)
              \<and> vin r3 = x \<and> ledger w3 = [r3] \<and> auditLog w3 = auditLog w2 @ [r3]))
      \<and> (\<exists>r3 w3. confirmVin (Inr loc) mockUrl' t'
                     (commonProps u (handleStart now area (app w2))) (Some x) (Some b')
                     (w2\<lparr>app := handleStart now area (app w2)\<rparr>) = (Inr r3, w3)
            \<and> vin r3 = x \<and> ledger w3 = [r3] \<and> auditLog w3 = auditLog w2 @ [r3]))
   \<and> (reachable u rw \<longrightarrow> distinct (map vin (ledger rw)))"
proof (intro conjI impI)
  assume a: "(ManualVinInput_handleSubmit position t (commonProps u (app w)) x w = (Inr r, w1)
      \<or> confirmVin position mockUrl t (commonProps u (app w)) (Some x) (Some b) w = (Inr r, w1))
     \<and> inSession u w1 w2"
    and l: "length x = 17"
  from l accepted_stays(2) [OF a]
  show "ManualVinInput_handleSubmit position' t' (commonProps u (app w2)) x w2
           = (Inl (DuplicateVin x), w2)" by (rule manual_duplicate)
next
  assume a: "(ManualVinInput_handleSubmit position t (commonProps u (app w)) x w = (Inr r, w1)
      \<or> confirmVin position mockUrl t (commonProps u (app w)) (Some x) (Some b) w = (Inr r, w1))
     \<and> inSession u w1 w2"
  from accepted_stays [OF a]
  show "confirmVin position' mockUrl' t' (commonProps u (app w2)) (Some x) (Some b') w2
           = (Inl (DuplicateVin x), w2)" by (rule confirmVin_duplicate)
next
  assume l: "length x = 17"
  let ?w = "w2\<lparr>app := handleStart now area (app w2)\<rparr>"
  let ?p = "commonProps u (handleStart now area (app w2))"
  have fresh: "x \<notin> vin ` set (propSessionLogs ?p)" by (simp add: commonProps_def handleStart_def)
  from manual_accepts [OF l fresh, of loc t' ?w] obtain r3 w3 where
    s: "ManualVinInput_handleSubmit (Inr loc) t' ?p x ?w = (Inr r3, w3)" by blast
  note g = manual_success [OF s]
  have "vin r3 = x \<and> ledger w3 = [r3] \<and> auditLog w3 = auditLog w2 @ [r3]"
    using g(4,5,6) by (simp add: handleStart_def)
  with s show "\<exists>r3 w3. ManualVinInput_handleSubmit (Inr loc) t' ?p x ?w = (Inr r3, w3)
            \<and> vin r3 = x \<and> ledger w3 = [r3] \<and> auditLog w3 = auditLog w2 @ [r3]" by blast
next
  assume a: "(ManualVinInput_handleSubmit position t (commonProps u (app w)) x w = (Inr r, w1)
      \<or> confirmVin position mockUrl t (commonProps u (app w)) (Some x) (Some b) w = (Inr r, w1))
     \<and> inSession u w1 w2"
  let ?w = "w2\<lparr>app := handleStart now area (app w2)\<rparr>"
  let ?p = "commonProps u (handleStart now area (app w2))"
  have fresh: "x \<notin> vin ` set (propSessionLogs ?p)" by (simp add: commonProps_def handleStart_def)
  from confirmVin_accepts [OF accepted_stays(1) [OF a] fresh, of loc mockUrl' t' b' ?w]
  obtain r3 w3 where
    s: "confirmVin (Inr loc) mockUrl' t' ?p (Some x) (Some b') ?w = (Inr r3, w3)" by blast
  note g = confirmVin_success [OF s]
  have "vin r3 = x \<and> ledger w3 = [r3] \<and> auditLog w3 = auditLog w2 @ [r3]"
    using g(1,5,6) by (simp add: handleStart_def)
  with s show "\<exists>r3 w3. confirmVin (Inr loc) mockUrl' t' ?p (Some x) (Some b') ?w = (Inr r3, w3)
            \<and> vin r3 = x \<and> ledger w3 = [r3] \<and> auditLog w3 = auditLog w2 @ [r3]" by blast
next
  assume "reachable u rw"
  then show "distinct (map vin (ledger rw))" by (rule reachable_ledger_distinct)
qed

text \<open>
  C2, as amended. The duplicate check is made by the capture handlers, on the session
  records they were rendered with, before \<open>addScanLog\<close> is called: for an identifier
  that is among those records the manual entry, the camera confirmation and the upload
  fail with the duplicate error and leave the world as it is, and the video batch stores
  no record for it. \<open>addScanLog\<close> itself checks nothing: it appends the candidate it
  is given.
\<close>

theorem duplicate_check_is_in_the_handlers:
  "(x \<in> vin ` set (propSessionLogs props) \<longrightarrow>
      (length x = 17 \<longrightarrow>
         ManualVinInput_handleSubmit position t props x w = (Inl (DuplicateVin x), w))
      \<and> (x \<noteq> [] \<longrightarrow>
         confirmVin position mockUrl t props (Some x) (Some b) w = (Inl (DuplicateVin x), w))
      \<and> (extractVinFromImage response = Inr x \<longrightarrow>
         ImageAnalyzer_handleSubmit (Inr loc) (Some encoded) response mockUrl t props
             (Some imageFile) w
           = (Inl (DuplicateVin x), w))
      \<and> (vins \<noteq> [] \<longrightarrow>
         (\<exists>recs w1. handleGenerateRecords position ticks props (Some vins) w
                       = (Some (length recs), w1)
            \<and> auditLog w1 = auditLog w @ recs \<and> x \<notin> vin ` set recs)))
   \<and> mockFirestore (snd (addScanLog t d db)) = mockFirestore db @ [fst (addScanLog t d db)]
   \<and> vin (fst (addScanLog t d db)) = vin d"
proof (intro conjI impI)
  assume "x \<in> vin ` set (propSessionLogs props)" "length x = 17"
  then show "ManualVinInput_handleSubmit position t props x w = (Inl (DuplicateVin x), w)"
    by (simp add: manual_duplicate)
next
  assume "x \<in> vin ` set (propSessionLogs props)" "x \<noteq> []"
  then show "confirmVin position mockUrl t props (Some x) (Some b) w = (Inl (DuplicateVin x), w)"
    by (simp add: confirmVin_duplicate)
next
  assume "x \<in> vin ` set (propSessionLogs props)" "extractVinFromImage response = Inr x"
  then show "ImageAnalyzer_handleSubmit (Inr loc) (Some encoded) response mockUrl t props
             (Some imageFile) w
           = (Inl (DuplicateVin x), w)"
    by (simp add: upload_duplicate)
next
  assume x: "x \<in> vin ` set (propSessionLogs props)" and v: "vins \<noteq> []"
  from handleGenerateRecords_result [OF v, of position ticks props w] obtain recs w1 where
    r: "handleGenerateRecords position ticks props (Some vins) w = (Some (length recs), w1)"
      "auditLog w1 = auditLog w @ recs"
      "map vin recs = filter (\<lambda>v. v \<notin> vin ` set (propSessionLogs props)) vins"
    by blast
  have "set (map vin recs) = {v \<in> set vins. v \<notin> vin ` set (propSessionLogs props)}"
    by (simp add: r(3))
  with x have "x \<notin> vin ` set recs" by auto
  with r(1,2) show "\<exists>recs w1. handleGenerateRecords position ticks props (Some vins) w
                       = (Some (length recs), w1)
            \<and> auditLog w1 = auditLog w @ recs \<and> x \<notin> vin ` set recs" by blast
next
  show "mockFirestore (snd (addScanLog t d db)) = mockFirestore db @ [fst (addScanLog t d db)]"
    by (rule addScanLog_store)
next
  show "vin (fst (addScanLog t d db)) = vin d"
    by (simp add: addScanLog_def Let_def ScanLogData.extend_def)
qed

section \<open>Failure of the position\<close>

text \<open>
  C6. When the position cannot be obtained, the manual entry, the camera confirmation
  and the upload end with an error and leave the world as it is (the error is the
  location error whenever the checks before it pass), so no record is stored and no
  coordinate is made up. The video batch behaves as if the position were latitude 0 and
  longitude 0: it stores every identifier that is not yet in the session, each with
  that location.
\<close>

theorem position_failure:
  "(\<exists>e. ManualVinInput_handleSubmit (Inl m) t props v w = (Inl e, w))
   \<and> (\<exists>e. confirmVin (Inl m) mockUrl t props vinState capturedImage w = (Inl e, w))
   \<and> (\<exists>e. ImageAnalyzer_handleSubmit (Inl m) base64Image response mockUrl t props imageFile w = (Inl e, w))
   \<and> (length v = 17 \<and> v \<notin> vin ` set (propSessionLogs props) \<longrightarrow>
        ManualVinInput_handleSubmit (Inl m) t props v w = (Inl (CouldNotGetLocation m), w)
        \<and> confirmVin (Inl m) mockUrl t props (Some v) (Some b) w
            = (Inl (CouldNotGetLocation m), w))
   \<and> ImageAnalyzer_handleSubmit (Inl m) base64Image response mockUrl t props (Some picture) w
        = (Inl (CouldNotGetLocation m), w)
   \<and> handleGenerateRecords (Inl m) ticks props detectedVins w
        = handleGenerateRecords (Inr \<lparr>latitude = 0, longitude = 0\<rparr>) ticks props detectedVins w
   \<and> (vins \<noteq> [] \<longrightarrow>
        (\<exists>recs w1. handleGenerateRecords (Inl m) ticks props (Some vins) w
                      = (Some (length recs), w1)
           \<and> auditLog w1 = auditLog w @ recs
           \<and> map vin recs = filter (\<lambda>v. v \<notin> vin ` set (propSessionLogs props)) vins
           \<and> (\<forall>r \<in> set recs. location r = \<lparr>latitude = 0, longitude = 0\<rparr>)))"
proof (intro conjI impI)
  show "\<exists>e. ManualVinInput_handleSubmit (Inl m) t props v w = (Inl e, w)"
    by (rule manual_no_position)
next
  show "\<exists>e. confirmVin (Inl m) mockUrl t props vinState capturedImage w = (Inl e, w)"
    by (rule confirmVin_no_position)
next
  show "\<exists>e. ImageAnalyzer_handleSubmit (Inl m) base64Image response mockUrl t props imageFile w = (Inl e, w)"
    by (rule upload_no_position)
next
  assume "length v = 17 \<and> v \<notin> vin ` set (propSessionLogs props)"
  then show "ManualVinInput_handleSubmit (Inl m) t props v w = (Inl (CouldNotGetLocation m), w)"
    by (simp add: manual_no_position_error)
next
  assume a: "length v = 17 \<and> v \<notin> vin ` set (propSessionLogs props)"
  then have "v \<noteq> []" by auto
  with a show "confirmVin (Inl m) mockUrl t props (Some v) (Some b) w
            = (Inl (CouldNotGetLocation m), w)"
    by (simp add: confirmVin_no_position_error)
next
  show "ImageAnalyzer_handleSubmit (Inl m) base64Image response mockUrl t props (Some picture) w
        = (Inl (CouldNotGetLocation m), w)"
    by (rule upload_no_position_error)
next
  show "handleGenerateRecords (Inl m) ticks props detectedVins w
        = handleGenerateRecords (Inr \<lparr>latitude = 0, longitude = 0\<rparr>) ticks props detectedVins w"
    by (simp add: handleGenerateRecords_def videoLocation_def split: option.split)
next
  assume v: "vins \<noteq> []"
  from handleGenerateRecords_result [OF v, of "Inl m" ticks props w]
  show "\<exists>recs w1. handleGenerateRecords (Inl m) ticks props (Some vins) w
                      = (Some (length recs), w1)
           \<and> auditLog w1 = auditLog w @ recs
           \<and> map vin recs = filter (\<lambda>v. v \<notin> vin ` set (propSessionLogs props)) vins
           \<and> (\<forall>r \<in> set recs. location r = \<lparr>latitude = 0, longitude = 0\<rparr>)"
    by (simp add: videoLocation_def) blast
qed

section \<open>The video batch\<close>

text \<open>
  C7. The video batch stores, in their order, exactly the detected identifiers that are
  not among the session records it was rendered with; an identifier that is among them
  is passed over and the ones after it are still stored; the count it reports is the
  number of records it stored. With 3 detected identifiers of which 1 is in the
  session, 2 records are stored and the session has 2 records more than before.
\<close>

theorem video_batch_counts:
  "(vins \<noteq> [] \<longrightarrow>
      (\<exists>recs w1. handleGenerateRecords position ticks props (Some vins) w
                    = (Some (length recs), w1)
         \<and> auditLog w1 = auditLog w @ recs \<and> ledger w1 = rev recs @ ledger w
         \<and> map vin recs = filter (\<lambda>v. v \<notin> vin ` set (propSessionLogs props)) vins))
   \<and> (length vins' = 3 \<and> length (filter (\<lambda>v. v \<in> vin ` set (ledger w')) vins') = 1 \<longrightarrow>
      (\<exists>w1. handleGenerateRecords position ticks (commonProps u (app w')) (Some vins') w'
               = (Some 2, w1)
         \<and> length (auditLog w1) = length (auditLog w') + 2
         \<and> length (ledger w1) = length (ledger w') + 2))"
proof (intro conjI impI)
  assume v: "vins \<noteq> []"
  from handleGenerateRecords_result [OF v, of position ticks props w]
  show "\<exists>recs w1. handleGenerateRecords position ticks props (Some vins) w
                    = (Some (length recs), w1)
         \<and> auditLog w1 = auditLog w @ recs \<and> ledger w1 = rev recs @ ledger w
         \<and> map vin recs = filter (\<lambda>v. v \<notin> vin ` set (propSessionLogs props)) vins"
    by blast
next
  assume a: "length vins' = 3 \<and> length (filter (\<lambda>v. v \<in> vin ` set (ledger w')) vins') = 1"
  then have v: "vins' \<noteq> []" by auto
  let ?p = "commonProps u (app w')"
  from handleGenerateRecords_result [OF v, of position ticks ?p w'] obtain recs w1 where
    r: "handleGenerateRecords position ticks ?p (Some vins') w' = (Some (length recs), w1)"
      "auditLog w1 = auditLog w' @ recs" "ledger w1 = rev recs @ ledger w'"
      "map vin recs = filter (\<lambda>v. v \<notin> vin ` set (propSessionLogs ?p)) vins'"
    by blast
  have "length (filter (\<lambda>v. v \<in> vin ` set (ledger w')) vins')
        + length (filter (\<lambda>v. v \<notin> vin ` set (ledger w')) vins') = length vins'"
    by (rule sum_length_filter_compl)
  with a have "length (filter (\<lambda>v. v \<notin> vin ` set (ledger w')) vins') = 2" by simp
  moreover have "length recs = length (map vin recs)" by simp
  ultimately have "length recs = 2" using r(4) by (simp add: commonProps_def)
  with r(1,2,3) show "\<exists>w1. handleGenerateRecords position ticks ?p (Some vins') w' = (Some 2, w1)
         \<and> length (auditLog w1) = length (auditLog w') + 2
         \<and> length (ledger w1) = length (ledger w') + 2"
    by auto
qed

section \<open>The identifiers in the log\<close>

text \<open>
  C9, as amended. In every world the application reaches, each stored record of the
  camera, the upload or the manual entry carries an identifier of exactly 17 code units
  of the class \<open>[A-HJ-NPR-Z0-9]\<close> (upper-case letters without I, O, Q, and digits),
  and each stored record of the video batch carries an identifier of 10 to 20 code
  units.
\<close>

theorem stored_identifiers_wellformed:
  "reachable u w \<longrightarrow> list_all wellformedVin (auditLog w)"
  using reachable_vins_wellformed by blast

section \<open>The sample runs\<close>

lemma ex_vin_facts:
  "length ex_vin = 17" "ex_vin \<noteq> []" "list_all vinChar ex_vin"
  "handleVinChange (\<lambda>s. s) ex_vin = ex_vin"
  "extractVinFromImage (Some ex_vin) = Inr ex_vin"
  by (simp_all add: ex_vin_def js_def vinChar_def handleVinChange_def extractVinFromImage_Some)

lemma ex_dock7_facts:
  "auditLog ex_dock7 = []" "ledger ex_dock7 = []"
  "propSessionLogs (commonProps u (app ex_dock7)) = []"
  by (simp_all add: ex_dock7_def initialWorld_def handleStart_def commonProps_def)

lemma reachable_ex_dock7: "reachable ex_user ex_dock7"
  unfolding ex_dock7_def by (intro reachable.by_start reachable.at_load)

lemma ex_manual_entry_accepted:
  "ex_manual_entry = (Inr (projr (fst ex_manual_entry)), snd ex_manual_entry)"
proof -
  have "ex_vin \<notin> vin ` set (propSessionLogs (commonProps ex_user (app ex_dock7)))"
    by (simp add: ex_dock7_facts)
  from manual_accepts [OF ex_vin_facts(1) this, of ex_here "ex_ticks 0" ex_dock7]
  show ?thesis by (auto simp: ex_manual_entry_def)
qed

lemma ex_manual_entry_facts:
  "map vin (ledger (snd ex_manual_entry)) = [ex_vin]"
  "map vin (auditLog (snd ex_manual_entry)) = [ex_vin]"
  using manual_success(4,5,6) [OF ex_manual_entry_accepted [unfolded ex_manual_entry_def]]
  by (simp_all add: ex_manual_entry_def ex_dock7_facts)

lemma reachable_ex_manual_entry: "reachable ex_user (snd ex_manual_entry)"
  using reachable.by_manual [OF reachable_ex_dock7, of "Inr ex_here" "ex_ticks 0" "\<lambda>s. s" ex_vin]
  by (simp add: ex_manual_entry_def ex_vin_facts)

lemma ex_camera_entry_accepted:
  "ex_camera_entry = (Inr (projr (fst ex_camera_entry)), snd ex_camera_entry)"
proof -
  have "ex_vin \<notin> vin ` set (propSessionLogs (commonProps ex_user (app ex_dock7)))"
    by (simp add: ex_dock7_facts)
  from confirmVin_accepts [OF ex_vin_facts(2) this, of ex_here ex_url "ex_ticks 0" ex_photo ex_dock7]
  show ?thesis by (auto simp: ex_camera_entry_def)
qed

lemma ex_detected: "fst (handleAnalyze_parse (js ''[\"abcdefghij\"]'')) = Some [js ''abcdefghij'']"
  by code_simp

lemma ex_video_batch_facts:
  "map vin (auditLog (snd ex_video_batch)) = [js ''abcdefghij'']"
proof -
  have "[js ''abcdefghij''] \<noteq> []" by simp
  from handleGenerateRecords_result [OF this, of "Inr ex_here" ex_ticks
      "commonProps ex_user (app ex_dock7)" ex_dock7]
  show ?thesis by (auto simp: ex_video_batch_def ex_detected ex_dock7_facts)
qed

lemma reachable_ex_video_batch: "reachable ex_user (snd ex_video_batch)"
  unfolding ex_video_batch_def by (intro reachable.by_video reachable_ex_dock7)

lemma inSession_ex_later: "inSession ex_user (snd ex_manual_entry) ex_later"
  unfolding ex_later_def by (intro inSession.after_video inSession.at_once)

lemma reachable_ex_later: "reachable ex_user ex_later"
  using reachable.by_video [OF reachable_ex_manual_entry, of "Inr ex_here" ex_ticks
      "js ''The VIN is ABCDEFGHIJ1234.''"]
  by (simp add: ex_later_def detected_example2)

text \<open>
  The hypotheses of C1 at the sample session: the manual entry of \<open>ex_vin\<close> is
  accepted, and a video batch follows. Then a second attempt is a duplicate, and a
  session started at "Dock 8" accepts the identifier again.
\<close>

theorem duplicate_rejected_in_session_only_witness:
  "ManualVinInput_handleSubmit (Inl (js ''denied'')) (ex_ticks 5)
       (commonProps ex_user (app ex_later)) ex_vin ex_later
     = (Inl (DuplicateVin ex_vin), ex_later)
   \<and> confirmVin (Inl (js ''denied'')) ex_url (ex_ticks 5)
       (commonProps ex_user (app ex_later)) (Some ex_vin) (Some ex_photo) ex_later
     = (Inl (DuplicateVin ex_vin), ex_later)
   \<and> (\<exists>r3 w3. ManualVinInput_handleSubmit (Inr ex_here) (ex_ticks 5)
                  (commonProps ex_user (handleStart ex_date (js ''Dock 8'') (app ex_later)))
                  ex_vin (ex_later\<lparr>app := handleStart ex_date (js ''Dock 8'') (app ex_later)\<rparr>)
                = (Inr r3, w3)
         \<and> vin r3 = ex_vin \<and> ledger w3 = [r3] \<and> auditLog w3 = auditLog ex_later @ [r3])
   \<and> distinct (map vin (ledger ex_later))"
proof -
  note t = duplicate_rejected_in_session_only
    [where position = "Inr ex_here" and t = "ex_ticks 0" and u = ex_user and w = ex_dock7
       and x = ex_vin and r = "projr (fst ex_manual_entry)" and ?w1.0 = "snd ex_manual_entry"
       and ?w2.0 = ex_later and mockUrl = ex_url and b = ex_photo
       and position' = "Inl (js ''denied'')" and t' = "ex_ticks 5" and mockUrl' = ex_url
       and b' = ex_photo and loc = ex_here and now = ex_date and area = "js ''Dock 8''"
       and rw = ex_later]
  have h: "(ManualVinInput_handleSubmit (Inr ex_here) (ex_ticks 0)
              (commonProps ex_user (app ex_dock7)) ex_vin ex_dock7
            = (Inr (projr (fst ex_manual_entry)), snd ex_manual_entry)
          \<or> confirmVin (Inr ex_here) ex_url (ex_ticks 0) (commonProps ex_user (app ex_dock7))
              (Some ex_vin) (Some ex_photo) ex_dock7
            = (Inr (projr (fst ex_manual_entry)), snd ex_manual_entry))
         \<and> inSession ex_user (snd ex_manual_entry) ex_later"
  proof (intro conjI disjI1)
    show "ManualVinInput_handleSubmit (Inr ex_here) (ex_ticks 0)
              (commonProps ex_user (app ex_dock7)) ex_vin ex_dock7
            = (Inr (projr (fst ex_manual_entry)), snd ex_manual_entry)"
      by (subst ex_manual_entry_def [symmetric]) (rule ex_manual_entry_accepted)
    show "inSession ex_user (snd ex_manual_entry) ex_later" by (rule inSession_ex_later)
  qed
  from t h reachable_ex_later ex_vin_facts(1) show ?thesis by blast
qed

section \<open>The claims at the sample runs\<close>

lemma ex_vin_in_session:
  "ex_vin \<in> vin ` set (propSessionLogs (commonProps ex_user (app (snd ex_manual_entry))))"
proof -
  have "set (map vin (ledger (snd ex_manual_entry))) = {ex_vin}"
    by (simp add: ex_manual_entry_facts)
  then show ?thesis by (simp add: commonProps_def)
qed

text \<open>
  The hypotheses of C2 (amended) in the session that holds \<open>ex_vin\<close>: each handler
  turns the identifier down.
\<close>

theorem duplicate_check_is_in_the_handlers_witness:
  "ManualVinInput_handleSubmit (Inr ex_here) (ex_ticks 1)
       (commonProps ex_user (app (snd ex_manual_entry))) ex_vin (snd ex_manual_entry)
     = (Inl (DuplicateVin ex_vin), snd ex_manual_entry)
   \<and> confirmVin (Inr ex_here) ex_url (ex_ticks 1)
       (commonProps ex_user (app (snd ex_manual_entry))) (Some ex_vin) (Some ex_photo)
       (snd ex_manual_entry)
     = (Inl (DuplicateVin ex_vin), snd ex_manual_entry)
   \<and> ImageAnalyzer_handleSubmit (Inr ex_here) (Some ex_base64) (Some ex_vin) ex_url (ex_ticks 1)
       (commonProps ex_user (app (snd ex_manual_entry))) (Some ex_photo) (snd ex_manual_entry)
     = (Inl (DuplicateVin ex_vin), snd ex_manual_entry)
   \<and> (\<exists>recs w1. handleGenerateRecords (Inr ex_here) ex_ticks
                    (commonProps ex_user (app (snd ex_manual_entry)))
                    (Some [ex_vin, js ''ABCDEFGHIJ1234'']) (snd ex_manual_entry)
                  = (Some (length recs), w1)
         \<and> auditLog w1 = auditLog (snd ex_manual_entry) @ recs \<and> ex_vin \<notin> vin ` set recs)"
  using duplicate_check_is_in_the_handlers
    [where x = ex_vin and props = "commonProps ex_user (app (snd ex_manual_entry))"
       and position = "Inr ex_here" and t = "ex_ticks 1" and w = "snd ex_manual_entry"
       and mockUrl = ex_url and b = ex_photo and response = "Some ex_vin" and loc = ex_here
       and encoded = ex_base64 and imageFile = ex_photo and vins = "[ex_vin, js ''ABCDEFGHIJ1234'']" and ticks = ex_ticks]
    ex_vin_in_session ex_vin_facts
  by simp

text \<open>
  C2, as stated, fails: the session of \<open>snd ex_manual_entry\<close> holds \<open>ex_vin\<close>, and
  \<open>addScanLog\<close>, given a candidate with that identifier and that session, appends it.
\<close>

theorem addScanLog_checks_nothing_counterexample:
  "map vin (ledger (snd ex_manual_entry)) = [ex_vin]
   \<and> map vin (mockFirestore (snd (addScanLog (ex_ticks 1)
         (ScanLogData.truncate (projr (fst ex_manual_entry))) (firestore (snd ex_manual_entry)))))
       = [ex_vin, ex_vin]
   \<and> map sessionId (mockFirestore (snd (addScanLog (ex_ticks 1)
         (ScanLogData.truncate (projr (fst ex_manual_entry))) (firestore (snd ex_manual_entry)))))
       = [currentSessionId (app ex_dock7), currentSessionId (app ex_dock7)]"
proof -
  note f = manual_success [OF ex_manual_entry_accepted [unfolded ex_manual_entry_def],
      folded ex_manual_entry_def]
  have a: "auditLog (snd ex_manual_entry) = [projr (fst ex_manual_entry)]"
    using f(4) by (simp add: ex_dock7_facts)
  have s: "sessionId (projr (fst ex_manual_entry)) = currentSessionId (app ex_dock7)"
    using f(7) by (simp add: commonProps_def)
  show ?thesis
    using a s f(6)
    by (simp add: ex_manual_entry_facts addScanLog_store)
       (simp add: addScanLog_def Let_def ScanLogData.extend_def ScanLogData.truncate_def)
qed

text \<open>
  The hypotheses of C6 at the sample session, with the position denied: the manual entry
  and the camera confirmation fail, the video batch stores \<open>ex_vin\<close> at latitude 0 and
  longitude 0.
\<close>

theorem position_failure_witness:
  "ManualVinInput_handleSubmit (Inl (js ''denied'')) (ex_ticks 0)
       (commonProps ex_user (app ex_dock7)) ex_vin ex_dock7
     = (Inl (CouldNotGetLocation (js ''denied'')), ex_dock7)
   \<and> confirmVin (Inl (js ''denied'')) ex_url (ex_ticks 0)
       (commonProps ex_user (app ex_dock7)) (Some ex_vin) (Some ex_photo) ex_dock7
     = (Inl (CouldNotGetLocation (js ''denied'')), ex_dock7)
   \<and> (\<exists>recs w1. handleGenerateRecords (Inl (js ''denied'')) ex_ticks
                    (commonProps ex_user (app ex_dock7)) (Some [ex_vin]) ex_dock7
                  = (Some (length recs), w1)
         \<and> auditLog w1 = recs \<and> map vin recs = [ex_vin]
         \<and> (\<forall>r \<in> set recs. location r = \<lparr>latitude = 0, longitude = 0\<rparr>))"
proof -
  note t = position_failure
    [where m = "js ''denied''" and t = "ex_ticks 0" and props = "commonProps ex_user (app ex_dock7)"
       and v = ex_vin and w = ex_dock7 and mockUrl = ex_url and b = ex_photo
       and ticks = ex_ticks and vins = "[ex_vin]" and vinState = "Some ex_vin"
       and capturedImage = "Some ex_photo" and response = "Some ex_vin"
       and imageFile = "Some ex_photo" and picture = ex_photo and detectedVins = "Some [ex_vin]"]
  have h: "length ex_vin = 17 \<and> ex_vin \<notin> vin ` set (propSessionLogs (commonProps ex_user (app ex_dock7)))"
    by (simp add: ex_vin_facts ex_dock7_facts)
  from t h have a: "ManualVinInput_handleSubmit (Inl (js ''denied'')) (ex_ticks 0)
       (commonProps ex_user (app ex_dock7)) ex_vin ex_dock7
     = (Inl (CouldNotGetLocation (js ''denied'')), ex_dock7)" by blast
  from t h have b: "confirmVin (Inl (js ''denied'')) ex_url (ex_ticks 0)
       (commonProps ex_user (app ex_dock7)) (Some ex_vin) (Some ex_photo) ex_dock7
     = (Inl (CouldNotGetLocation (js ''denied'')), ex_dock7)" by blast
  have "[ex_vin] \<noteq> []" by simp
  with t obtain recs w1 where
    c: "handleGenerateRecords (Inl (js ''denied'')) ex_ticks
          (commonProps ex_user (app ex_dock7)) (Some [ex_vin]) ex_dock7 = (Some (length recs), w1)"
      "auditLog w1 = auditLog ex_dock7 @ recs"
      "map vin recs = filter (\<lambda>v. v \<notin> vin ` set (propSessionLogs (commonProps ex_user (app ex_dock7)))) [ex_vin]"
      "\<forall>r \<in> set recs. location r = \<lparr>latitude = 0, longitude = 0\<rparr>"
    by blast
  from c(2,3) have "auditLog w1 = recs \<and> map vin recs = [ex_vin]" by (simp add: ex_dock7_facts)
  with a b c(1,4) show ?thesis by (intro conjI exI [of _ recs] exI [of _ w1]) simp_all
qed

text \<open>
  The hypotheses of C7: three detected identifiers, of which \<open>ex_vin\<close> is in the
  session already; the session had 1 record and has 3 afterwards.
\<close>

theorem video_batch_counts_witness:
  "\<exists>w1. handleGenerateRecords (Inr ex_here) ex_ticks
            (commonProps ex_user (app (snd ex_manual_entry)))
            (Some [js ''ABCDEFGHIJ1234'', ex_vin, js ''WVWZZZ1JZXW000001''])
            (snd ex_manual_entry)
          = (Some 2, w1)
      \<and> length (auditLog w1) = 3 \<and> length (ledger w1) = 3"
proof -
  have s: "vin ` set (ledger (snd ex_manual_entry)) = {ex_vin}"
    using ex_manual_entry_facts(1) by (metis list.set_map list.simps(15) empty_set)
  have l: "length (ledger (snd ex_manual_entry)) = 1" "length (auditLog (snd ex_manual_entry)) = 1"
    using ex_manual_entry_facts by (metis length_map length_Cons list.size(3) One_nat_def)+
  have h: "length [js ''ABCDEFGHIJ1234'', ex_vin, js ''WVWZZZ1JZXW000001''] = 3
      \<and> length (filter (\<lambda>v. v \<in> vin ` set (ledger (snd ex_manual_entry)))
                  [js ''ABCDEFGHIJ1234'', ex_vin, js ''WVWZZZ1JZXW000001'']) = 1"
    by (simp add: s) (simp add: ex_vin_def js_def)
  from video_batch_counts
      [where vins' = "[js ''ABCDEFGHIJ1234'', ex_vin, js ''WVWZZZ1JZXW000001'']"
         and w' = "snd ex_manual_entry" and position = "Inr ex_here" and ticks = ex_ticks
         and u = ex_user] h
  obtain w1 where
    "handleGenerateRecords (Inr ex_here) ex_ticks
            (commonProps ex_user (app (snd ex_manual_entry)))
            (Some [js ''ABCDEFGHIJ1234'', ex_vin, js ''WVWZZZ1JZXW000001''])
            (snd ex_manual_entry)
          = (Some 2, w1)"
    "length (auditLog w1) = length (auditLog (snd ex_manual_entry)) + 2"
    "length (ledger w1) = length (ledger (snd ex_manual_entry)) + 2"
    by blast
  with l show ?thesis by (intro exI [of _ w1]) simp
qed

text \<open>The hypothesis of C9 (amended) at a world reached through the video batch.\<close>

theorem stored_identifiers_wellformed_witness:
  "reachable ex_user (snd ex_video_batch) \<and> list_all wellformedVin (auditLog (snd ex_video_batch))"
  using stored_identifiers_wellformed [of ex_user "snd ex_video_batch"] reachable_ex_video_batch
  by simp

text \<open>
  C9, as stated, fails on the video path: the batch for the recognition text
  \<open>["abcdefghij"]\<close> stores a record whose identifier has 10 code units, in lower case.
\<close>

theorem video_identifier_counterexample:
  "reachable ex_user (snd ex_video_batch)
   \<and> map vin (auditLog (snd ex_video_batch)) = [js ''abcdefghij'']
   \<and> length (js ''abcdefghij'') = 10
   \<and> \<not> list_all vinChar (js ''abcdefghij'')"
  using reachable_ex_video_batch ex_video_batch_facts
  by (simp add: js_def vinChar_def)

text \<open>
  C8. The duplicate check and the append are not one unit: \<open>confirmVin\<close> checks at the
  click and appends after it has waited. Two confirmations of \<open>ex_vin\<close> in the sample
  session whose checks both run before either of them appends are both accepted, and
  the log and the session then hold the identifier twice. Run one after the other, the
  second one is turned down as a duplicate and the log holds the identifier once.
\<close>

theorem overlapping_confirmations_both_stored:
  "map vin (auditLog (world (run_events ex_user ex_confirmations
       [Click 0, Click 1, Resume 0, Resume 1] ex_dock7))) = [ex_vin, ex_vin]
   \<and> map sessionId (auditLog (world (run_events ex_user ex_confirmations
       [Click 0, Click 1, Resume 0, Resume 1] ex_dock7)))
       = [currentSessionId (app ex_dock7), currentSessionId (app ex_dock7)]
   \<and> map vin (ledger (world (run_events ex_user ex_confirmations
       [Click 0, Click 1, Resume 0, Resume 1] ex_dock7))) = [ex_vin, ex_vin]
   \<and> map_option isl (outcome (run_events ex_user ex_confirmations
       [Click 0, Click 1, Resume 0, Resume 1] ex_dock7) 0) = Some False
   \<and> map_option isl (outcome (run_events ex_user ex_confirmations
       [Click 0, Click 1, Resume 0, Resume 1] ex_dock7) 1) = Some False
   \<and> map vin (auditLog (world (run_events ex_user ex_confirmations
       [Click 0, Resume 0, Click 1, Resume 1] ex_dock7))) = [ex_vin]
   \<and> outcome (run_events ex_user ex_confirmations
       [Click 0, Resume 0, Click 1, Resume 1] ex_dock7) 1 = Some (Inl (DuplicateVin ex_vin))"
  by (simp add: run_events_def ex_confirmations_def confirmVin_check_def confirmVin_save_def
      saveAndScan_def addScanLog_def saveToLocalStorage_def handleScan_def commonProps_def
      ex_dock7_def initialWorld_def handleStart_def Let_def ex_ticks_def
      ScanLogData.extend_def ex_vin_def js_def)

end
